theory Spec2Isabelle
  imports Main
begin

text \<open>
  A model of the parts of the Jack Brito GPT front end that decide how it behaves: the
  executor that retries calls of the generation service, the functions that turn the
  service's replies into what is displayed, the chat hook, and the two terminal
  components with their context, their transcript and its copy in \<open>localStorage\<close>.
  The definitions follow the TypeScript source function by function; asynchronous
  functions are split at their \<open>await\<close>, and what is awaited (the service, and
  \<open>JSON.parse\<close> where it is called) is a parameter. The properties come after the
  definitions.
\<close>

section \<open>JavaScript strings\<close>

text \<open>
  Strings are modelled as \<^typ>\<open>string\<close>: the bytes of the (well-formed) UTF-8
  encoding of the JavaScript string, in which the encoding of a code point starts or
  ends only where that code point does. The string methods the code calls are written
  out: \<open>trim\<close>, \<open>toLowerCase\<close>, \<open>includes\<close>, \<open>startsWith\<close>, \<open>substring\<close> and
  \<open>replace\<close> with a string pattern. \<open>trim\<close> removes what \<open>String.prototype.trim\<close>
  removes: the white space and line terminator code points of ECMAScript.
  \<open>toLowerCase\<close> changes the letters A to Z. The code uses a lower-cased text only
  to compare it with an ASCII word or to search it for one; the lower case of a code
  point outside ASCII has an ASCII letter in two cases only, U+212A (\<open>k\<close>) and U+0130
  (\<open>i\<close> followed by U+0307), and no word has a \<open>k\<close>, none that is searched for has
  an \<open>i\<close>, and the \<open>i\<close> of \<open>exit\<close> is not followed by U+0307.
\<close>

definition LF :: char where
  "LF = CHR 0x0A"

definition lower_char :: "char \<Rightarrow> char" where
  "lower_char c =
     (case map_of (zip ''ABCDEFGHIJKLMNOPQRSTUVWXYZ'' ''abcdefghijklmnopqrstuvwxyz'') c of
        Some l \<Rightarrow> l
      | None \<Rightarrow> c)"

definition toLowerCase :: "string \<Rightarrow> string" where
  "toLowerCase s = map lower_char s"

fun startsWith :: "string \<Rightarrow> string \<Rightarrow> bool" where
  "startsWith s [] = True"
| "startsWith [] (p # ps) = False"
| "startsWith (c # cs) (p # ps) = (c = p \<and> startsWith cs ps)"

text \<open>
  The code points \<open>trim\<close> removes, in UTF-8: TAB, LF, VT, FF, CR, SPACE, U+00A0,
  U+1680, U+2000 to U+200A, U+2028, U+2029, U+202F, U+205F, U+3000 and U+FEFF.
\<close>

definition white_space :: "string list" where
  "white_space =
     [[CHR 0x09], [CHR 0x0A], [CHR 0x0B], [CHR 0x0C], [CHR 0x0D], [CHR 0x20],
      [CHR 0xC2, CHR 0xA0],
      [CHR 0xE1, CHR 0x9A, CHR 0x80],
      [CHR 0xE2, CHR 0x80, CHR 0x80], [CHR 0xE2, CHR 0x80, CHR 0x81],
      [CHR 0xE2, CHR 0x80, CHR 0x82], [CHR 0xE2, CHR 0x80, CHR 0x83],
      [CHR 0xE2, CHR 0x80, CHR 0x84], [CHR 0xE2, CHR 0x80, CHR 0x85],
      [CHR 0xE2, CHR 0x80, CHR 0x86], [CHR 0xE2, CHR 0x80, CHR 0x87],
      [CHR 0xE2, CHR 0x80, CHR 0x88], [CHR 0xE2, CHR 0x80, CHR 0x89],
      [CHR 0xE2, CHR 0x80, CHR 0x8A],
      [CHR 0xE2, CHR 0x80, CHR 0xA8], [CHR 0xE2, CHR 0x80, CHR 0xA9],
      [CHR 0xE2, CHR 0x80, CHR 0xAF],
      [CHR 0xE2, CHR 0x81, CHR 0x9F],
      [CHR 0xE3, CHR 0x80, CHR 0x80],
      [CHR 0xEF, CHR 0xBB, CHR 0xBF]]"

text \<open>Removing, again and again, one of the patterns from the start of a text.\<close>

function strip_leading :: "string list \<Rightarrow> string \<Rightarrow> string" where
  "strip_leading pats s =
     (case find (\<lambda>p. p \<noteq> [] \<and> startsWith s p) pats of
        None \<Rightarrow> s
      | Some p \<Rightarrow> strip_leading pats (drop (length p) s))"
  by pat_completeness auto
termination
proof (relation "measure (\<lambda>(pats, s). length s)")
  show "wf (measure (\<lambda>(pats, s). length s))" by simp
next
  fix pats :: "string list" and s p :: string
  assume "find (\<lambda>p. p \<noteq> [] \<and> startsWith s p) pats = Some p"
  then have p: "p \<noteq> []" and sw: "startsWith s p" by (auto simp: find_Some_iff)
  then have "s \<noteq> []" by (cases s; cases p) auto
  with p show "((pats, drop (length p) s), (pats, s)) \<in> measure (\<lambda>(pats, s). length s)"
    by simp
qed

declare strip_leading.simps [simp del]

definition trimStart :: "string \<Rightarrow> string" where
  "trimStart s = strip_leading white_space s"

definition trimEnd :: "string \<Rightarrow> string" where
  "trimEnd s = rev (strip_leading (map rev white_space) (rev s))"

definition trim :: "string \<Rightarrow> string" where
  "trim s = trimEnd (trimStart s)"

text \<open>A byte that starts or ends the encoding of a white space code point.\<close>

definition ws_edge :: "char \<Rightarrow> bool" where
  "ws_edge c = list_ex (\<lambda>p. hd p = c \<or> last p = c) white_space"

text \<open>A text that is empty or made of white space code points only.\<close>

inductive white_space_only :: "string \<Rightarrow> bool" where
  empty: "white_space_only []"
| more: "p \<in> set white_space \<Longrightarrow> white_space_only s \<Longrightarrow> white_space_only (p @ s)"

fun includes_str :: "string \<Rightarrow> string \<Rightarrow> bool" where
  "includes_str [] p = (p = [])"
| "includes_str (c # cs) p = (startsWith (c # cs) p \<or> includes_str cs p)"

text \<open>
  \<open>split_first p s\<close> cuts \<open>s\<close> at the leftmost occurrence of \<open>p\<close>: the text before
  it and the text after it. \<open>s.replace(p, r)\<close> with a string \<open>p\<close> replaces that
  leftmost occurrence only.
\<close>

fun split_first :: "string \<Rightarrow> string \<Rightarrow> (string \<times> string) option" where
  "split_first p [] = (if p = [] then Some ([], []) else None)"
| "split_first p (c # cs) =
     (if startsWith (c # cs) p then Some ([], drop (length p) (c # cs))
      else (case split_first p cs of
              None \<Rightarrow> None
            | Some (a, b) \<Rightarrow> Some (c # a, b)))"

definition replace_first :: "string \<Rightarrow> string \<Rightarrow> string \<Rightarrow> string" where
  "replace_first p r s =
     (case split_first p s of None \<Rightarrow> s | Some (a, b) \<Rightarrow> a @ r @ b)"

text \<open>JavaScript truthiness of an optional string: \<open>undefined\<close> and \<open>''\<close> are falsy.\<close>

fun truthy :: "string option \<Rightarrow> bool" where
  "truthy None = False"
| "truthy (Some s) = (s \<noteq> [])"

text \<open>\<open>x || d\<close> on an optional string.\<close>

definition or_else :: "string option \<Rightarrow> string \<Rightarrow> string" where
  "or_else x d = (if truthy x then the x else d)"

text \<open>Decimal rendering of a non-negative integer (\<open>Number.prototype.toString\<close>).\<close>

definition digit_char :: "nat \<Rightarrow> char" where
  "digit_char d = char_of (48 + d)"

fun toString_nat :: "nat \<Rightarrow> string" where
  "toString_nat n =
     (if n < 10 then [digit_char n] else toString_nat (n div 10) @ [digit_char (n mod 10)])"

declare toString_nat.simps [simp del]

section \<open>Thrown values\<close>

text \<open>
  What the generation service's client and \<open>JSON.parse\<close> throw: an \<open>Error\<close> object
  with a \<open>name\<close>, an optional \<open>message\<close> and, for HTTP failures, a numeric
  \<open>status\<close>.
\<close>

record error =
  name :: string
  message :: "string option"
  status :: "int option"

text \<open>\<open>Error.prototype.toString\<close>, used by the template literal \<open>${error}\<close>.\<close>

definition error_toString :: "error \<Rightarrow> string" where
  "error_toString e =
     (let msg = (case message e of None \<Rightarrow> [] | Some m \<Rightarrow> m) in
      if name e = [] then msg
      else if msg = [] then name e
      else name e @ '': '' @ msg)"

section \<open>The chat hook: useChatHistory\<close>

text \<open>
  The types \<open>Message\<close>, \<open>Sender\<close> and \<open>AIChatResponse\<close> are imported by the source
  from a types module; their fields are the ones the hook reads and writes
  (prefixed \<open>msg_\<close> and \<open>r_\<close> here).
\<close>

datatype Sender = USER | AI

record Message =
  msg_id :: string
  msg_text :: string
  msg_sender :: Sender
  msg_imageUrl :: "string option"
  msg_sources :: "(string \<times> string) list option"

record AIChatResponse =
  r_text :: "string option"
  r_errorMessage :: "string option"
  r_imageUrl :: "string option"
  r_sources :: "(string \<times> string) list option"

record chat_state =
  messages :: "Message list"
  isLoading :: bool

definition welcomeMessage :: Message where
  "welcomeMessage =
     \<lparr> msg_id = ''initial'',
       msg_text = ''Ol'' @ [CHR 0xC3, CHR 0xA1] @ ''! Eu sou a Jack Brito GPT. Como posso te ajudar hoje?'',
       msg_sender = AI, msg_imageUrl = None, msg_sources = None \<rparr>"

definition chat_init :: chat_state where
  "chat_init = \<lparr> messages = [welcomeMessage], isLoading = False \<rparr>"

text \<open>
  \<open>sendMessage\<close> is asynchronous. Its part before the \<open>await\<close> is
  \<open>sendMessage\<close> below: it returns the new state and the call it issues to
  \<open>sendMessageToGemini\<close> (\<open>None\<close>: no call). Its part after the \<open>await\<close> is
  \<open>sendMessage_resume\<close>, given what the call produced (\<open>Inl\<close>: it threw).
  \<open>now\<close> is the value of \<open>Date.now()\<close>.
\<close>

definition sendMessage :: "nat \<Rightarrow> string \<Rightarrow> chat_state \<Rightarrow> chat_state \<times> string option" where
  "sendMessage now inputText st =
     (if trim inputText = [] \<or> isLoading st then (st, None)
      else
        let userMessage = \<lparr> msg_id = toString_nat now, msg_text = inputText, msg_sender = USER,
                              msg_imageUrl = None, msg_sources = None \<rparr>
        in (st \<lparr> messages := messages st @ [userMessage], isLoading := True \<rparr>,
            Some inputText))"

definition imagem_prefix :: string where
  "imagem_prefix = ''/imagem ''"

definition aiMessage_of :: "nat \<Rightarrow> string \<Rightarrow> error + AIChatResponse \<Rightarrow> Message" where
  "aiMessage_of now inputText res =
     (case res of
        Inl e \<Rightarrow>
          \<lparr> msg_id = toString_nat (now + 1),
            msg_text = ''Desculpe, ocorreu um erro inesperado ao processar sua solicita''
                   @ [CHR 0xC3, CHR 0xA7, CHR 0xC3, CHR 0xA3] @ ''o. Tente novamente.'',
            msg_sender = AI, msg_imageUrl = None, msg_sources = None \<rparr>
      | Inr aiResponse \<Rightarrow>
          if truthy (r_errorMessage aiResponse) then
            \<lparr> msg_id = toString_nat (now + 1), msg_text = the (r_errorMessage aiResponse),
              msg_sender = AI, msg_imageUrl = None, msg_sources = None \<rparr>
          else if truthy (r_imageUrl aiResponse) then
            \<lparr> msg_id = toString_nat (now + 1),
              msg_text = or_else (r_text aiResponse)
                (if startsWith inputText ''/imagem''
                 then ''Aqui est'' @ [CHR 0xC3, CHR 0xA1]
                      @ '' a imagem que criei para voc'' @ [CHR 0xC3, CHR 0xAA]
                      @ '' com o prompt: \"''
                      @ trim (drop (length imagem_prefix) inputText) @ ''\"''
                 else ''Aqui est'' @ [CHR 0xC3, CHR 0xA1]
                      @ '' a imagem que editei para voc'' @ [CHR 0xC3, CHR 0xAA] @ ''!''),
              msg_sender = AI, msg_imageUrl = r_imageUrl aiResponse, msg_sources = None \<rparr>
          else
            \<lparr> msg_id = toString_nat (now + 1),
              msg_text = or_else (r_text aiResponse)
                (''N'' @ [CHR 0xC3, CHR 0xA3] @ ''o recebi uma resposta v''
                 @ [CHR 0xC3, CHR 0xA1] @ ''lida.''),
              msg_sender = AI, msg_imageUrl = None, msg_sources = r_sources aiResponse \<rparr>)"

definition sendMessage_resume ::
  "nat \<Rightarrow> string \<Rightarrow> error + AIChatResponse \<Rightarrow> chat_state \<Rightarrow> chat_state" where
  "sendMessage_resume now inputText res st =
     st \<lparr> messages := messages st @ [aiMessage_of now inputText res], isLoading := False \<rparr>"

text \<open>An input of a no-break space, an ideographic space, a space and a line feed.\<close>

definition blank_input :: string where
  "blank_input = [CHR 0xC2, CHR 0xA0] @ [CHR 0xE3, CHR 0x80, CHR 0x80] @ '' '' @ [LF]"

section \<open>The backoff-retrying executor: retryOperation\<close>

text \<open>
  The classification is the expression \<open>isRetryable\<close> in the \<open>catch\<close> block of
  \<open>retryOperation\<close>: status 429 or 503, or one of five substrings in the lower-cased
  message (\<open>(error.message || '').toLowerCase()\<close>).
\<close>

definition isRetryable :: "error \<Rightarrow> bool" where
  "isRetryable e =
     (let errorMessage = toLowerCase (or_else (message e) []) in
      status e = Some 429 \<or> status e = Some 503 \<or>
      includes_str errorMessage ''429'' \<or> includes_str errorMessage ''503'' \<or>
      includes_str errorMessage ''quota'' \<or> includes_str errorMessage ''resource_exhausted'' \<or>
      includes_str errorMessage ''overloaded'')"

text \<open>
  The operation is any effectful function: it is run on a state \<open>'s\<close> (everything it
  depends on and changes) and either throws (\<open>Inl\<close>) or produces a value. What the
  executor does is recorded as a list of events: a call of the operation, the
  \<open>console.warn\<close> of a retry (attempt number, attempts in all, delay) and the
  \<open>wait\<close> before the next attempt, in milliseconds.

  \<open>maxRetries\<close> is a count, \<open>initialDelay\<close> an integer; \<open>initialDelay * Math.pow(2, attempt)\<close>
  is taken over the integers. \<open>lastError\<close> is \<open>None\<close> while it is \<open>undefined\<close>; the value
  thrown is \<open>Inl\<close> of it.
\<close>

datatype event = Attempt | Warn nat nat int | Wait int

type_synonym ('s, 'a) operation = "'s \<Rightarrow> (error + 'a) \<times> 's"

function retry_loop ::
  "('s, 'a) operation \<Rightarrow> nat \<Rightarrow> int \<Rightarrow> nat \<Rightarrow> error option \<Rightarrow> 's \<Rightarrow> event list
   \<Rightarrow> (error option + 'a) \<times> 's \<times> event list" where
  "retry_loop operation maxRetries initialDelay attempt lastError s tr =
     (if attempt \<le> maxRetries then
        (case operation s of
           (Inr v, s') \<Rightarrow> (Inr v, s', tr @ [Attempt])
         | (Inl e, s') \<Rightarrow>
             if \<not> isRetryable e \<or> attempt = maxRetries
             then (Inl (Some e), s', tr @ [Attempt])
             else
               let delay = initialDelay * 2 ^ attempt in
               retry_loop operation maxRetries initialDelay (attempt + 1) (Some e) s'
                 (tr @ [Attempt, Warn (attempt + 1) (maxRetries + 1) delay, Wait delay]))
      else (Inl lastError, s, tr))"
  by pat_completeness auto
termination
  by (relation "measure (\<lambda>(operation, maxRetries, initialDelay, attempt, lastError, s, tr).
        Suc maxRetries - attempt)") auto

declare retry_loop.simps [simp del]

definition retryOperation ::
  "('s, 'a) operation \<Rightarrow> nat \<Rightarrow> int \<Rightarrow> 's \<Rightarrow> (error option + 'a) \<times> 's \<times> event list" where
  "retryOperation operation maxRetries initialDelay s =
     retry_loop operation maxRetries initialDelay 0 None s []"

definition retryOperation_default ::
  "('s, 'a) operation \<Rightarrow> 's \<Rightarrow> (error option + 'a) \<times> 's \<times> event list" where
  "retryOperation_default operation s = retryOperation operation 3 2000 s"

text \<open>
  The state the operation is in before its \<open>k\<close>-th call (counting from 0) when it is
  called again and again, what that call produces, and whether it is a failure the
  executor retries.
\<close>

fun op_state :: "('s, 'a) operation \<Rightarrow> 's \<Rightarrow> nat \<Rightarrow> 's" where
  "op_state operation s 0 = s"
| "op_state operation s (Suc k) = op_state operation (snd (operation s)) k"

definition outcome :: "('s, 'a) operation \<Rightarrow> 's \<Rightarrow> nat \<Rightarrow> error + 'a" where
  "outcome operation s k = fst (operation (op_state operation s k))"

definition fails_retryably :: "('s, 'a) operation \<Rightarrow> 's \<Rightarrow> nat \<Rightarrow> bool" where
  "fails_retryably operation s k =
     (case outcome operation s k of Inl e \<Rightarrow> isRetryable e | Inr v \<Rightarrow> False)"

text \<open>How the executor passes on what an attempt produced: a value returned, an error thrown again.\<close>

definition settled :: "error + 'a \<Rightarrow> error option + 'a" where
  "settled r = (case r of Inl e \<Rightarrow> Inl (Some e) | Inr v \<Rightarrow> Inr v)"

text \<open>The events of attempt \<open>k\<close> when it fails and is retried.\<close>

definition retry_events :: "nat \<Rightarrow> int \<Rightarrow> nat \<Rightarrow> event list" where
  "retry_events maxRetries initialDelay k =
     [Attempt, Warn (k + 1) (maxRetries + 1) (initialDelay * 2 ^ k), Wait (initialDelay * 2 ^ k)]"

text \<open>The number of calls of the operation and the delays waited, read off the events.\<close>

fun attempts_of :: "event list \<Rightarrow> nat" where
  "attempts_of [] = 0"
| "attempts_of (Attempt # es) = Suc (attempts_of es)"
| "attempts_of (Warn i n d # es) = attempts_of es"
| "attempts_of (Wait d # es) = attempts_of es"

fun delays_of :: "event list \<Rightarrow> int list" where
  "delays_of [] = []"
| "delays_of (Attempt # es) = delays_of es"
| "delays_of (Warn i n d # es) = delays_of es"
| "delays_of (Wait d # es) = d # delays_of es"

definition events_of :: "(error option + 'a) \<times> 's \<times> event list \<Rightarrow> event list" where
  "events_of r = snd (snd r)"

text \<open>
  Operations to run the executor on: one that fails twice with status 503 and then
  succeeds (its state counts the calls), and one that fails with the same error on
  every call.
\<close>

definition flaky :: "(nat, string) operation" where
  "flaky n = (if n < 2 then Inl \<lparr> name = ''ApiError'', message = None, status = Some 503 \<rparr>
              else Inr ''ok'', n + 1)"

definition quota_error :: error where
  "quota_error = \<lparr> name = ''Error'', message = Some ''RESOURCE_EXHAUSTED: Quota exceeded'', status = None \<rparr>"

definition not_found_error :: error where
  "not_found_error = \<lparr> name = ''Error'', message = Some ''Requested entity was not found.'', status = None \<rparr>"

definition always :: "error \<Rightarrow> (unit, string) operation" where
  "always e u = (Inl e, u)"

section \<open>Replies of the generation service\<close>

text \<open>
  Each \<open>simulate...\<close> function of the service module awaits
  \<open>retryOperation(() => ai.models.generateContent(...))\<close> inside a \<open>try\<close> block and
  reads \<open>response.text\<close>. Its argument here is what that \<open>await\<close> produced: an error
  thrown (\<open>Inl\<close>) or the \<open>text\<close> of the response, which may be \<open>undefined\<close>
  (\<open>None\<close>).
\<close>

definition fence :: string where
  "fence = ''```''"

definition endsWith :: "string \<Rightarrow> string \<Rightarrow> bool" where
  "endsWith s p = startsWith (rev s) (rev p)"

text \<open>\<open>error.message?.includes(p)\<close>\<close>

definition message_includes :: "error \<Rightarrow> string \<Rightarrow> bool" where
  "message_includes e p = (case message e of None \<Rightarrow> False | Some m \<Rightarrow> includes_str m p)"

subsection \<open>Terminal replies\<close>

text \<open>
  The three replacements of \<open>simulateRNTCommand\<close>, each with a regular expression
  anchored at one end of the text: \<open>/^```rnt\n/i\<close>, \<open>/^```\n/i\<close> and \<open>/```$/i\<close>
  (no \<open>m\<close> flag: \<open>^\<close> and \<open>$\<close> are the two ends of the whole text).
\<close>

definition strip_open_rnt :: "string \<Rightarrow> string" where
  "strip_open_rnt s =
     (if startsWith (toLowerCase s) (fence @ ''rnt'' @ [LF]) then drop 7 s else s)"

definition strip_open :: "string \<Rightarrow> string" where
  "strip_open s = (if startsWith s (fence @ [LF]) then drop 4 s else s)"

definition strip_close :: "string \<Rightarrow> string" where
  "strip_close s = (if endsWith s fence then take (length s - 3) s else s)"

definition simulateRNTCommand :: "error + string option \<Rightarrow> string" where
  "simulateRNTCommand res =
     (case res of
        Inr response_text \<Rightarrow>
          let text = or_else response_text [];
              text = strip_close (strip_open (strip_open_rnt text))
          in trim text
      | Inl e \<Rightarrow>
          if message_includes e ''429''
          then ''RNT Kernel Panic: Resource Exhausted (429). Rebooting nodes...''
          else ''RNT Connection Error: Node unreachable.'')"

definition simulateTelnetCommand :: "error + string option \<Rightarrow> string" where
  "simulateTelnetCommand res =
     (case res of
        Inr response_text \<Rightarrow> or_else response_text []
      | Inl e \<Rightarrow>
          if message_includes e ''429''
          then ''Erro: Quota da API excedida. Tente novamente em breve.''
          else ''Erro de conex'' @ [CHR 0xC3, CHR 0xA3] @ ''o: O host remoto n''
               @ [CHR 0xC3, CHR 0xA3] @ ''o respondeu ou a simula''
               @ [CHR 0xC3, CHR 0xA7, CHR 0xC3, CHR 0xA3] @ ''o falhou.'')"

text \<open>
  A reply with an ideographic space before it and a space and a no-break space after
  it; and the content of a block with a no-break space before it and a line
  separator (U+2028) after it.
\<close>

definition padded_reply :: string where
  "padded_reply = [CHR 0xE3, CHR 0x80, CHR 0x80] @ ''ok '' @ [CHR 0xC2, CHR 0xA0]"

definition padded_body :: string where
  "padded_body = [CHR 0xC2, CHR 0xA0] @ ''hello'' @ [CHR 0xE2, CHR 0x80, CHR 0xA8]"

text \<open>A reply wrapped in a fenced block and ended by a line feed.\<close>

definition fenced_reply :: string where
  "fenced_reply = fence @ [LF] @ ''hello'' @ [LF] @ fence @ [LF]"

subsection \<open>Parsed documents\<close>

text \<open>
  The values \<open>JSON.parse\<close> returns. \<open>JSON.parse\<close> itself is a parameter of the
  functions that call it: a function from the text to the error it throws or the value
  it returns. The fields of an object are an association list, each key once. Of a
  number only zero or non-zero matters here.
\<close>

datatype json =
  JNull
| JBool bool
| JNum int
| JStr string
| JArr "json list"
| JObj "(string \<times> json) list"

text \<open>
  \<open>v.k\<close>: reading a property of \<open>null\<close> throws a \<open>TypeError\<close>; an object gives the
  field or \<open>undefined\<close> (\<open>None\<close>); any other value has no such property.
\<close>

definition null_property_error :: "string \<Rightarrow> error" where
  "null_property_error k =
     \<lparr> name = ''TypeError'',
       message = Some (''Cannot read properties of null (reading '' @ [CHR 0x27] @ k @ [CHR 0x27] @ '')''),
       status = None \<rparr>"

fun get_prop :: "json \<Rightarrow> string \<Rightarrow> error + json option" where
  "get_prop JNull k = Inl (null_property_error k)"
| "get_prop (JObj kvs) k = Inr (map_of kvs k)"
| "get_prop v k = Inr None"

fun json_truthy :: "json option \<Rightarrow> bool" where
  "json_truthy None = False"
| "json_truthy (Some JNull) = False"
| "json_truthy (Some (JBool b)) = b"
| "json_truthy (Some (JNum n)) = (n \<noteq> 0)"
| "json_truthy (Some (JStr s)) = (s \<noteq> [])"
| "json_truthy (Some v) = True"

text \<open>\<open>x || d\<close> with a string \<open>d\<close>.\<close>

definition json_or :: "json option \<Rightarrow> string \<Rightarrow> json" where
  "json_or x d = (if json_truthy x then the x else JStr d)"

subsection \<open>Framework replies\<close>

text \<open>The result object \<open>{ output, logs }\<close> (fields prefixed \<open>f_\<close> here).\<close>

record framework_result =
  f_output :: json
  f_logs :: json

definition empty_response_notice :: string where
  "empty_response_notice = ''<h1>Erro: Resposta vazia do servidor simulado.</h1>''"

definition log_parse_notice :: string where
  "log_parse_notice = ''[Error] Failed to parse simulation logs.''"

definition quota_result :: framework_result where
  "quota_result =
     \<lparr> f_output = JStr ''<h1>503 Service Unavailable</h1><p>API Quota Exceeded. Please try again later.</p>'',
       f_logs = JStr ''CRITICAL: API Quota Limit Reached.'' \<rparr>"

definition simulation_failed :: "error \<Rightarrow> framework_result" where
  "simulation_failed e =
     \<lparr> f_output = JStr ''<h1>500 Internal Server Error (Simulation Failed)</h1>'',
       f_logs = JStr (''CRITICAL: Simulation failed due to API error: '' @ error_toString e) \<rparr>"

text \<open>The \<open>try\<close> block: everything in it that can throw is a branch returning \<open>Inl\<close>.\<close>

definition framework_try ::
  "(string \<Rightarrow> error + json) \<Rightarrow> error + string option \<Rightarrow> error + framework_result" where
  "framework_try parse res =
     (case res of
        Inl e \<Rightarrow> Inl e
      | Inr response_text \<Rightarrow>
          (case parse (or_else response_text ''{}'') of
             Inl e \<Rightarrow> Inl e
           | Inr result \<Rightarrow>
               (case get_prop result ''responseBody'' of
                  Inl e \<Rightarrow> Inl e
                | Inr body \<Rightarrow>
                    (case get_prop result ''serverLogs'' of
                       Inl e \<Rightarrow> Inl e
                     | Inr lg \<Rightarrow>
                         Inr \<lparr> f_output = json_or body empty_response_notice,
                               f_logs = json_or lg log_parse_notice \<rparr>))))"

text \<open>The \<open>catch\<close> block.\<close>

definition framework_catch :: "error \<Rightarrow> framework_result" where
  "framework_catch e = (if message_includes e ''429'' then quota_result else simulation_failed e)"

definition simulateFrameworkExecution ::
  "(string \<Rightarrow> error + json) \<Rightarrow> error + string option \<Rightarrow> framework_result" where
  "simulateFrameworkExecution parse res =
     (case framework_try parse res of Inl e \<Rightarrow> framework_catch e | Inr r \<Rightarrow> r)"

text \<open>
  What \<open>JSON.parse\<close> does on four texts, for running the functions: an empty object,
  an object with both fields, \<open>null\<close>, and a text that is no JSON document.
\<close>

definition syntax_error :: error where
  "syntax_error = \<lparr> name = ''SyntaxError'', message = Some ''Unexpected token'', status = None \<rparr>"

definition both_fields :: string where
  "both_fields = ''{\"responseBody\":\"<p>ok</p>\",\"serverLogs\":\"GET / 200\"}''"

definition parse_sample :: "string \<Rightarrow> error + json" where
  "parse_sample s =
     (if s = ''{}'' then Inr (JObj [])
      else if s = both_fields
      then Inr (JObj [(''responseBody'', JStr ''<p>ok</p>''), (''serverLogs'', JStr ''GET / 200'')])
      else if s = ''null'' then Inr JNull
      else Inl syntax_error)"

section \<open>The Julia renderer: runSimulation\<close>

text \<open>
  The regular expression \<open>/```json-plotly\n([\s\S]*?)\n```/\<close> matches from the
  leftmost opening line to the first closing fence after it. \<open>plot_parts\<close> gives the
  text before the match, the captured group and the text after the match;
  \<open>plot_match\<close> gives \<open>plotMatch[0]\<close> and \<open>plotMatch[1]\<close>.
\<close>

definition plot_open :: string where
  "plot_open = fence @ ''json-plotly'' @ [LF]"

definition plot_close :: string where
  "plot_close = [LF] @ fence"

definition plot_parts :: "string \<Rightarrow> (string \<times> string \<times> string) option" where
  "plot_parts s =
     (case split_first plot_open s of
        None \<Rightarrow> None
      | Some (pre, rest) \<Rightarrow>
          (case split_first plot_close rest of
             None \<Rightarrow> None
           | Some (content, post) \<Rightarrow> Some (pre, content, post)))"

definition plot_match :: "string \<Rightarrow> (string \<times> string) option" where
  "plot_match s =
     (case plot_parts s of
        None \<Rightarrow> None
      | Some (pre, content, post) \<Rightarrow> Some (plot_open @ content @ plot_close, content))"

text \<open>
  The state of the component that \<open>runSimulation\<close> writes (the output is prefixed
  \<open>j_\<close> here). \<open>plotData\<close> is \<open>null\<close> when there is no chart.
\<close>

record julia_state =
  j_output :: string
  plotData :: json
  isExecuting :: bool
  editableJuliaCode :: string

definition execution_error_heading :: string where
  "execution_error_heading =
     ''### Erro na Execu'' @ [CHR 0xC3, CHR 0xA7, CHR 0xC3, CHR 0xA3] @ ''o'' @ [LF, LF]"

definition no_output_notice :: string where
  "no_output_notice =
     ''A execu'' @ [CHR 0xC3, CHR 0xA7, CHR 0xC3, CHR 0xA3] @ ''o n'' @ [CHR 0xC3, CHR 0xA3]
     @ ''o produziu nenhuma sa'' @ [CHR 0xC3, CHR 0xAD] @ ''da.''"

definition chart_failure_notice :: string where
  "chart_failure_notice =
     [LF, LF] @ ''[Erro ao renderizar o gr'' @ [CHR 0xC3, CHR 0xA1] @ ''fico visualmente]''"

text \<open>
  \<open>runSimulation\<close> up to its \<open>await\<close>: the new state and the code it sends to
  \<open>simulateJuliaExecution\<close>.
\<close>

definition runSimulation :: "julia_state \<Rightarrow> julia_state \<times> string" where
  "runSimulation st =
     (st \<lparr> isExecuting := True, j_output := [], plotData := JNull \<rparr>, editableJuliaCode st)"

text \<open>
  \<open>runSimulation\<close> after the \<open>await\<close>, given what the call produced, with the
  \<open>catch\<close> and \<open>finally\<close> blocks. \<open>parse\<close> is \<open>JSON.parse\<close>.
\<close>

definition runSimulation_resume ::
  "(string \<Rightarrow> error + json) \<Rightarrow> error + AIChatResponse \<Rightarrow> julia_state \<Rightarrow> julia_state" where
  "runSimulation_resume parse res st =
     (let st' =
        (case res of
           Inl e \<Rightarrow>
             st \<lparr> j_output := execution_error_heading
                      @ (case message e of None \<Rightarrow> ''undefined'' | Some m \<Rightarrow> m) \<rparr>
         | Inr response \<Rightarrow>
             if truthy (r_errorMessage response)
             then st \<lparr> j_output := execution_error_heading @ the (r_errorMessage response) \<rparr>
             else
               let plotMatch = (case r_text response of None \<Rightarrow> None | Some t \<Rightarrow> plot_match t);
                   displayText = or_else (r_text response) no_output_notice
               in (case plotMatch of
                     None \<Rightarrow> st \<lparr> j_output := displayText \<rparr>
                   | Some (m0, m1) \<Rightarrow>
                       (case parse m1 of
                          Inr json \<Rightarrow>
                            st \<lparr> plotData := json, j_output := replace_first m0 [] displayText \<rparr>
                        | Inl e \<Rightarrow>
                            st \<lparr> j_output := displayText @ chart_failure_notice \<rparr>)))
      in st' \<lparr> isExecuting := False \<rparr>)"

text \<open>A reply with a chart block between two lines of text, and a component to run it in.\<close>

definition chart_reply :: "string \<Rightarrow> string" where
  "chart_reply content =
     ''Resultado:'' @ [LF] @ plot_open @ content @ plot_close @ [LF] @ ''Fim.''"

definition julia_init :: julia_state where
  "julia_init = \<lparr> j_output = [], plotData = JNull, isExecuting = False,
                   editableJuliaCode = ''plot(1:3)'' \<rparr>"

definition text_reply :: "string \<Rightarrow> AIChatResponse" where
  "text_reply t = \<lparr> r_text = Some t, r_errorMessage = None, r_imageUrl = None, r_sources = None \<rparr>"

section \<open>The RNT terminal component\<close>

subsection \<open>State, durable storage and timers\<close>

text \<open>
  An entry of the context buffer is an object \<open>{user, system}\<close>. An item of
  \<open>localStorage\<close> is absent, or the JSON text of a value (\<open>Doc\<close>: what
  \<open>JSON.stringify\<close> wrote and \<open>JSON.parse\<close> reads back), or a text that
  \<open>JSON.parse\<close> rejects or that is empty (\<open>Garbage\<close>).
\<close>

record ctx_msg =
  user :: string
  system :: string

datatype 'a slot = Absent | Doc 'a | Garbage

text \<open>
  What a pending \<open>setTimeout\<close> callback of the component does when it fires: the two
  persistence effects write the transcript or the context they closed over, a boot
  callback appends its line, and the callback of the reset command clears the screen.
  A timer is its due time in milliseconds and its action.
\<close>

datatype action =
  SaveHistory "string list"
| SaveContext "ctx_msg list"
| BootLine string
| WipeScreen

type_synonym timer = "nat \<times> action"

text \<open>
  The state of the component: its React state (display-only state, the full-screen
  and saving indicators, is left out), the two items of \<open>localStorage\<close> under
  \<open>rnt_os_history\<close> and \<open>rnt_os_context\<close>, the pending timers in the order they were
  set, and the time.
\<close>

record rnt_state =
  history :: "string list"
  contextMessages :: "ctx_msg list"
  currentInput :: string
  isProcessing :: bool
  storage_history :: "string list slot"
  storage_context :: "ctx_msg list slot"
  timers :: "timer list"
  clock :: nat

fun is_SaveHistory :: "action \<Rightarrow> bool" where
  "is_SaveHistory (SaveHistory h) = True"
| "is_SaveHistory a = False"

fun is_SaveContext :: "action \<Rightarrow> bool" where
  "is_SaveContext (SaveContext c) = True"
| "is_SaveContext a = False"

text \<open>
  A state update followed by the persistence effect that depends on it: the effect's
  cleanup clears the pending write (\<open>clearTimeout\<close>) and the effect sets a new one,
  300 ms from now, of the new value.
\<close>

definition setHistory :: "string list \<Rightarrow> rnt_state \<Rightarrow> rnt_state" where
  "setHistory h st =
     st \<lparr> history := h,
          timers := filter (\<lambda>t. \<not> is_SaveHistory (snd t)) (timers st)
                    @ [(clock st + 300, SaveHistory h)] \<rparr>"

definition setContextMessages :: "ctx_msg list \<Rightarrow> rnt_state \<Rightarrow> rnt_state" where
  "setContextMessages c st =
     st \<lparr> contextMessages := c,
          timers := filter (\<lambda>t. \<not> is_SaveContext (snd t)) (timers st)
                    @ [(clock st + 300, SaveContext c)] \<rparr>"

subsection \<open>Mounting\<close>

text \<open>The initialisers of the two \<open>useState\<close> calls: \<open>saved ? JSON.parse(saved) : []\<close>
  inside \<open>try\<close>, with \<open>[]\<close> in the \<open>catch\<close>.\<close>

fun load :: "'a list slot \<Rightarrow> 'a list" where
  "load (Doc xs) = xs"
| "load Absent = []"
| "load Garbage = []"

definition bootMessages :: "string list" where
  "bootMessages =
     [''Initializing RNT Kernel v1.0.4...'',
      ''Loading Aesthetic Drivers... [OK]'',
      ''Connecting to Jack Brito Neural Network... [CONNECTED]'',
      ''Mounting RNT-Pkg Mirror Nodes... [4 NODES FOUND]'',
      ''Welcome to Referring Node Transmission OS.'',
      ''Type '' @ [CHR 0x27] @ ''help'' @ [CHR 0x27] @ '' to begin.'']"

text \<open>\<open>bootMessages.forEach\<close>: \<open>delay += 600\<close>, then a timer at that delay.\<close>

fun schedule_boot :: "nat \<Rightarrow> string list \<Rightarrow> timer list" where
  "schedule_boot delay [] = []"
| "schedule_boot delay (msg # msgs) =
     (delay + 600, BootLine msg) # schedule_boot (delay + 600) msgs"

text \<open>
  The component after its first render and its mount effects, at time 0: the two
  persistence effects and the boot effect, in the order of the source.
\<close>

definition mount :: "bool \<Rightarrow> string list slot \<Rightarrow> ctx_msg list slot \<Rightarrow> rnt_state" where
  "mount initialBoot saved_history saved_context =
     (let h = load saved_history; c = load saved_context in
      \<lparr> history = h, contextMessages = c, currentInput = [], isProcessing = False,
        storage_history = saved_history, storage_context = saved_context,
        timers = [(300, SaveHistory h), (300, SaveContext c)]
                 @ (if initialBoot \<and> h = [] then schedule_boot 0 bootMessages else []),
        clock = 0 \<rparr>)"

text \<open>The component as the application renders it, \<open><RNTRenderer />\<close>: \<open>initialBoot\<close>
  has its default \<open>true\<close>.\<close>

definition RNTRenderer :: "string list slot \<Rightarrow> ctx_msg list slot \<Rightarrow> rnt_state" where
  "RNTRenderer saved_history saved_context = mount True saved_history saved_context"

subsection \<open>Timers firing\<close>

text \<open>The next timer to fire: the earliest due, the first set among equals.\<close>

fun next_timer :: "timer list \<Rightarrow> timer option" where
  "next_timer [] = None"
| "next_timer (t # ts) =
     (case next_timer ts of
        None \<Rightarrow> Some t
      | Some u \<Rightarrow> if fst u < fst t then Some u else Some t)"

definition fire :: "timer \<Rightarrow> rnt_state \<Rightarrow> rnt_state" where
  "fire t st =
     (let st1 = st \<lparr> timers := remove1 t (timers st), clock := max (clock st) (fst t) \<rparr> in
      case snd t of
        SaveHistory h \<Rightarrow> st1 \<lparr> storage_history := Doc h \<rparr>
      | SaveContext c \<Rightarrow> st1 \<lparr> storage_context := Doc c \<rparr>
      | BootLine msg \<Rightarrow> setHistory (history st1 @ [msg]) st1
      | WipeScreen \<Rightarrow> setHistory [] st1)"

fun weight :: "timer list \<Rightarrow> nat" where
  "weight [] = 0"
| "weight (t # ts) = (if is_SaveHistory (snd t) \<or> is_SaveContext (snd t) then 1 else 3) + weight ts"

lemma next_timer_mem: "next_timer ts = Some t \<Longrightarrow> t \<in> set ts"
  by (induction ts arbitrary: t) (auto split: option.splits if_splits)

lemma weight_remove1:
  "t \<in> set ts \<Longrightarrow>
   weight (remove1 t ts) + (if is_SaveHistory (snd t) \<or> is_SaveContext (snd t) then 1 else 3)
   = weight ts"
  by (induction ts) auto

lemma weight_filter: "weight (filter P ts) \<le> weight ts"
  by (induction ts) auto

lemma weight_append: "weight (xs @ ys) = weight xs + weight ys"
  by (induction xs) auto

lemma weight_fire:
  assumes "t \<in> set (timers st)"
  shows "weight (timers (fire t st)) < weight (timers st)"
proof -
  have f: "weight (filter P (remove1 t (timers st))) \<le> weight (remove1 t (timers st))" for P
    by (rule weight_filter)
  show ?thesis
    using weight_remove1 [OF assms] f [of "\<lambda>t. \<not> is_SaveHistory (snd t)"]
    by (cases "snd t") (auto simp: fire_def setHistory_def weight_append Let_def)
qed

text \<open>Time passing with no other event, until no timer is left.\<close>

function settle :: "rnt_state \<Rightarrow> rnt_state" where
  "settle st = (case next_timer (timers st) of None \<Rightarrow> st | Some t \<Rightarrow> settle (fire t st))"
  by pat_completeness auto
termination
  by (relation "measure (\<lambda>st. weight (timers st))") (auto dest: next_timer_mem weight_fire)

declare settle.simps [simp del]

text \<open>Time passing until the next timer fires.\<close>

definition tick :: "rnt_state \<Rightarrow> rnt_state" where
  "tick st = (case next_timer (timers st) of None \<Rightarrow> st | Some t \<Rightarrow> fire t st)"

subsection \<open>Submitting a command\<close>

text \<open>\<open>xs.slice(-n)\<close> and \<open>xs.join(sep)\<close>.\<close>

definition slice_last :: "nat \<Rightarrow> 'a list \<Rightarrow> 'a list" where
  "slice_last n xs = drop (length xs - n) xs"

fun join :: "string \<Rightarrow> string list \<Rightarrow> string" where
  "join sep [] = []"
| "join sep [x] = x"
| "join sep (x # y # ys) = x @ sep @ join sep (y # ys)"

definition render_ctx :: "ctx_msg \<Rightarrow> string" where
  "render_ctx m = ''User: '' @ user m @ [LF] @ ''RNT System: '' @ system m"

definition wipe_lines :: "string list" where
  "wipe_lines = [''Initiating System Wipe...'', ''Formatting Virtual Drive...'', ''System Halted.'']"

text \<open>
  \<open>handleCommandSubmit\<close> up to its \<open>await\<close>: the new state and the call of
  \<open>simulateRNTCommand(recentContext, command)\<close> it makes, if any.
\<close>

definition handleCommandSubmit :: "rnt_state \<Rightarrow> rnt_state \<times> (string \<times> string) option" where
  "handleCommandSubmit st =
     (if trim (currentInput st) = [] then (st, None)
      else
        let command = currentInput st;
            st1 = st \<lparr> currentInput := [] \<rparr>;
            st2 = setHistory (history st1 @ [''user@rnt:~$ '' @ command]) st1
        in
          if toLowerCase command = ''clear'' then (setHistory [] st2, None)
          else if toLowerCase command = ''sys-reset'' \<or> toLowerCase command = ''rnt-reset'' then
            let st3 = st2 \<lparr> storage_history := Absent, storage_context := Absent \<rparr>;
                st4 = setHistory (history st3 @ wipe_lines) st3;
                st5 = setContextMessages [] st4;
                st6 = st5 \<lparr> timers := timers st5 @ [(clock st5 + 2000, WipeScreen)] \<rparr>
            in (st6, None)
          else
            let st3 = st2 \<lparr> isProcessing := True \<rparr>;
                recentContext = join [LF] (map render_ctx (slice_last 15 (contextMessages st)))
            in (st3, Some (recentContext, command)))"

text \<open>
  \<open>handleCommandSubmit\<close> after the \<open>await\<close>, for the command it was called with and
  the response of \<open>simulateRNTCommand\<close>. The update of the context buffer is the
  \<open>appendInteraction\<close> of the specification.
\<close>

definition appendInteraction :: "string \<Rightarrow> string \<Rightarrow> rnt_state \<Rightarrow> rnt_state" where
  "appendInteraction command response st =
     setContextMessages (contextMessages st @ [\<lparr> user = command, system = response \<rparr>]) st"

definition handleCommandSubmit_resume :: "string \<Rightarrow> string \<Rightarrow> rnt_state \<Rightarrow> rnt_state" where
  "handleCommandSubmit_resume command response st =
     (let st1 = setHistory (history st @ [response]) st;
          st2 = appendInteraction command response st1
      in st2 \<lparr> isProcessing := False \<rparr>)"

text \<open>
  Typing a command and submitting it, the service answering \<open>respond context command\<close>;
  and a session of such commands.
\<close>

definition rnt_interact :: "(string \<Rightarrow> string \<Rightarrow> string) \<Rightarrow> rnt_state \<Rightarrow> string \<Rightarrow> rnt_state" where
  "rnt_interact respond st cmd =
     (case handleCommandSubmit (st \<lparr> currentInput := cmd \<rparr>) of
        (st', None) \<Rightarrow> st'
      | (st', Some (context, command)) \<Rightarrow>
          handleCommandSubmit_resume command (respond context command) st')"

definition rnt_session :: "(string \<Rightarrow> string \<Rightarrow> string) \<Rightarrow> rnt_state \<Rightarrow> string list \<Rightarrow> rnt_state" where
  "rnt_session respond st cmds = foldl (rnt_interact respond) st cmds"

text \<open>A command that is sent to the service: not blank, not \<open>clear\<close>, not a reset.\<close>

definition is_sent :: "string \<Rightarrow> bool" where
  "is_sent cmd =
     (trim cmd \<noteq> [] \<and> toLowerCase cmd \<noteq> ''clear''
      \<and> toLowerCase cmd \<noteq> ''sys-reset'' \<and> toLowerCase cmd \<noteq> ''rnt-reset'')"

text \<open>The boot lines still to come, with their due times.\<close>

fun boot_of :: "timer list \<Rightarrow> (nat \<times> string) list" where
  "boot_of [] = []"
| "boot_of ((d, BootLine msg) # ts) = (d, msg) # boot_of ts"
| "boot_of (t # ts) = boot_of ts"

text \<open>A service that answers every command with \<open>ok\<close>.\<close>

definition ok_kernel :: "string \<Rightarrow> string \<Rightarrow> string" where
  "ok_kernel context command = ''ok''"

text \<open>Typing a command and submitting it: the state after the synchronous part.\<close>

definition rnt_submit :: "string \<Rightarrow> rnt_state \<Rightarrow> rnt_state" where
  "rnt_submit cmd st = fst (handleCommandSubmit (st \<lparr> currentInput := cmd \<rparr>))"

text \<open>A component that was mounted over a stored context of one pair and no stored
  transcript, has shown its boot lines and is idle.\<close>

definition idle_rnt :: rnt_state where
  "idle_rnt = settle (RNTRenderer Absent (Doc [\<lparr> user = ''mkdir projetos'', system = ''ok'' \<rparr>]))"

text \<open>A component on which sixteen commands have been answered: one \<open>mkdir\<close>, then
  fifteen \<open>ls\<close>.\<close>

definition busy_rnt :: rnt_state where
  "busy_rnt = rnt_session ok_kernel (RNTRenderer Absent Absent)
                (''mkdir projetos'' # replicate 15 ''ls'')"

section \<open>The Telnet terminal component\<close>

text \<open>
  The React state of \<open>TelnetRenderer\<close> (fields that the RNT component also has are
  prefixed \<open>t_\<close>). The context is one string, \<open>sessionContext\<close>.
\<close>

record telnet_state =
  host :: string
  isConnected :: bool
  t_history :: "string list"
  sessionContext :: string
  t_currentInput :: string
  t_isProcessing :: bool

definition TelnetRenderer :: "string \<Rightarrow> telnet_state" where
  "TelnetRenderer initialHost =
     \<lparr> host = initialHost, isConnected = False, t_history = [], sessionContext = [],
       t_currentInput = [], t_isProcessing = False \<rparr>"

text \<open>
  \<open>handleConnect\<close> up to the call of \<open>simulateTelnetCommand(host, "", "CONNECT_INIT")\<close>,
  and after it, with the banner it returned.
\<close>

definition handleConnect :: "telnet_state \<Rightarrow> telnet_state \<times> (string \<times> string \<times> string)" where
  "handleConnect st =
     (st \<lparr> t_isProcessing := True,
           t_history := t_history st @ [''Connecting to '' @ host st @ ''...''] \<rparr>,
      (host st, [], ''CONNECT_INIT''))"

definition handleConnect_resume :: "string \<Rightarrow> string \<Rightarrow> telnet_state \<Rightarrow> telnet_state" where
  "handleConnect_resume h banner st =
     st \<lparr> t_history := t_history st @ [''Connected to '' @ h @ ''.'', banner],
          sessionContext := banner, isConnected := True, t_isProcessing := False \<rparr>"

definition handleDisconnect :: "telnet_state \<Rightarrow> telnet_state" where
  "handleDisconnect st =
     st \<lparr> t_history := t_history st @ [''Connection closed by foreign host.''],
          isConnected := False, sessionContext := [] \<rparr>"

text \<open>
  \<open>handleCommandSubmit\<close> of the Telnet component up to its \<open>await\<close>: the new state
  and the call \<open>simulateTelnetCommand(host, newContext, command)\<close> it makes, if any.
\<close>

definition telnet_handleCommandSubmit ::
  "telnet_state \<Rightarrow> telnet_state \<times> (string \<times> string \<times> string) option" where
  "telnet_handleCommandSubmit st =
     (if trim (t_currentInput st) = [] \<and> t_currentInput st \<noteq> [] then (st, None)
      else
        let command = t_currentInput st;
            st1 = st \<lparr> t_currentInput := [], t_history := t_history st @ [''> '' @ command] \<rparr>
        in
          if toLowerCase command = ''exit'' \<or> toLowerCase command = ''logout''
          then (handleDisconnect st1, None)
          else
            let newContext = sessionContext st @ [LF] @ ''User: '' @ command @ [LF]
            in (st1 \<lparr> t_isProcessing := True \<rparr>, Some (host st, newContext, command)))"

text \<open>After the \<open>await\<close>: \<open>newContext\<close> is the one the call was made with.\<close>

definition telnet_resume :: "string \<Rightarrow> string \<Rightarrow> telnet_state \<Rightarrow> telnet_state" where
  "telnet_resume newContext response st =
     st \<lparr> t_history := t_history st @ [response],
          sessionContext := newContext @ ''System: '' @ response @ [LF],
          t_isProcessing := False \<rparr>"

text \<open>
  Typing a command and submitting it, the service answering
  \<open>respond host context command\<close>; a session of such commands; and connecting.
\<close>

definition telnet_interact ::
  "(string \<Rightarrow> string \<Rightarrow> string \<Rightarrow> string) \<Rightarrow> telnet_state \<Rightarrow> string \<Rightarrow> telnet_state" where
  "telnet_interact respond st cmd =
     (case telnet_handleCommandSubmit (st \<lparr> t_currentInput := cmd \<rparr>) of
        (st', None) \<Rightarrow> st'
      | (st', Some (h, context, command)) \<Rightarrow>
          telnet_resume context (respond h context command) st')"

definition telnet_session ::
  "(string \<Rightarrow> string \<Rightarrow> string \<Rightarrow> string) \<Rightarrow> telnet_state \<Rightarrow> string list \<Rightarrow> telnet_state" where
  "telnet_session respond st cmds = foldl (telnet_interact respond) st cmds"

definition telnet_connect ::
  "(string \<Rightarrow> string \<Rightarrow> string \<Rightarrow> string) \<Rightarrow> telnet_state \<Rightarrow> telnet_state" where
  "telnet_connect respond st =
     (case handleConnect st of
        (st', (h, context, command)) \<Rightarrow> handleConnect_resume h (respond h context command) st')"

text \<open>A command that is sent to the service: not blank unless empty, not \<open>exit\<close> or \<open>logout\<close>.\<close>

definition telnet_is_sent :: "string \<Rightarrow> bool" where
  "telnet_is_sent cmd =
     (\<not> (trim cmd = [] \<and> cmd \<noteq> [])
      \<and> toLowerCase cmd \<noteq> ''exit'' \<and> toLowerCase cmd \<noteq> ''logout'')"

text \<open>The number of places at which \<open>p\<close> occurs in \<open>s\<close>.\<close>

fun count_sub :: "string \<Rightarrow> string \<Rightarrow> nat" where
  "count_sub p [] = 0"
| "count_sub p (c # cs) = (if startsWith (c # cs) p then 1 else 0) + count_sub p cs"

text \<open>A service that answers every command with \<open>ok\<close>.\<close>

definition ok_server :: "string \<Rightarrow> string \<Rightarrow> string \<Rightarrow> string" where
  "ok_server h context command = ''ok''"

text \<open>The context of the request that submitting \<open>cmd\<close> makes (empty if it makes none).\<close>

definition telnet_request_context :: "telnet_state \<Rightarrow> string \<Rightarrow> string" where
  "telnet_request_context st cmd =
     (case snd (telnet_handleCommandSubmit (st \<lparr> t_currentInput := cmd \<rparr>)) of
        None \<Rightarrow> []
      | Some (h, context, command) \<Rightarrow> context)"

section \<open>Facts about the string functions\<close>

lemma startsWith_iff: "startsWith s p \<longleftrightarrow> (\<exists>r. s = p @ r)"
  by (induction s p rule: startsWith.induct) auto

lemma startsWith_append: "startsWith (p @ r) p"
  by (simp add: startsWith_iff)

lemma startsWith_prefix: "startsWith s (p @ q) \<Longrightarrow> startsWith s p"
  by (auto simp: startsWith_iff)

lemma split_first_eq: "split_first p s = Some (a, b) \<Longrightarrow> s = a @ p @ b"
proof (induction p s arbitrary: a rule: split_first.induct)
  case (1 p)
  then show ?case by (simp split: if_splits)
next
  case (2 p c cs)
  show ?case
  proof (cases "startsWith (c # cs) p")
    case True
    then obtain r where r: "c # cs = p @ r" by (auto simp: startsWith_iff)
    from True 2 have "a = []" and "b = drop (length p) (c # cs)" by auto
    with r show ?thesis by simp
  next
    case False
    with 2 show ?thesis by (auto split: option.splits)
  qed
qed

lemma split_first_extend:
  "split_first p s = Some (a, q @ c) \<Longrightarrow> split_first (p @ q) s = Some (a, c)"
proof (induction p s arbitrary: a rule: split_first.induct)
  case (1 p)
  then show ?case by (simp split: if_splits)
next
  case (2 p ch cs)
  show ?case
  proof (cases "startsWith (ch # cs) p")
    case True
    then obtain r where r: "ch # cs = p @ r" by (auto simp: startsWith_iff)
    from True 2 have a: "a = []" and d: "drop (length p) (ch # cs) = q @ c" by auto
    from r d have "r = q @ c" by simp
    with r have full: "ch # cs = (p @ q) @ c" by simp
    then have "startsWith (ch # cs) (p @ q)" by (metis startsWith_append)
    moreover from full have "drop (length (p @ q)) (ch # cs) = c" by simp
    ultimately show ?thesis using a by (simp del: append_assoc)
  next
    case False
    then have "\<not> startsWith (ch # cs) (p @ q)" using startsWith_prefix by blast
    with False 2 show ?thesis by (auto split: option.splits)
  qed
qed

lemma strip_leading_None:
  "find (\<lambda>p. p \<noteq> [] \<and> startsWith s p) pats = None \<Longrightarrow> strip_leading pats s = s"
  by (subst strip_leading.simps) simp

lemma strip_leading_Some:
  "find (\<lambda>p. p \<noteq> [] \<and> startsWith s p) pats = Some p \<Longrightarrow>
   strip_leading pats s = strip_leading pats (drop (length p) s)"
  by (subst strip_leading.simps) simp

lemma strip_leading_done:
  "find (\<lambda>p. p \<noteq> [] \<and> startsWith (strip_leading pats s) p) pats = None"
proof (induction pats s rule: strip_leading.induct)
  case (1 pats s)
  show ?case
  proof (cases "find (\<lambda>p. p \<noteq> [] \<and> startsWith s p) pats")
    case None
    then show ?thesis by (simp add: strip_leading_None)
  next
    case (Some p)
    with 1 show ?thesis by (simp add: strip_leading_Some)
  qed
qed

lemma strip_leading_suffix: "\<exists>pre. s = pre @ strip_leading pats s"
proof (induction pats s rule: strip_leading.induct)
  case (1 pats s)
  show ?case
  proof (cases "find (\<lambda>p. p \<noteq> [] \<and> startsWith s p) pats")
    case None
    then show ?thesis by (simp add: strip_leading_None)
  next
    case (Some p)
    with 1 obtain pre where "drop (length p) s = pre @ strip_leading pats (drop (length p) s)"
      by blast
    then have "s = (take (length p) s @ pre) @ strip_leading pats (drop (length p) s)"
      by (metis append_assoc append_take_drop_id)
    then show ?thesis unfolding strip_leading_Some [OF Some] by (rule exI)
  qed
qed

lemma strip_leading_idem: "strip_leading pats (strip_leading pats s) = strip_leading pats s"
  by (rule strip_leading_None) (rule strip_leading_done)

lemma strip_leading_keep:
  assumes "s \<noteq> []" and "\<forall>p\<in>set pats. p \<noteq> [] \<longrightarrow> hd p \<noteq> hd s"
  shows "strip_leading pats s = s"
proof (rule strip_leading_None)
  have "\<not> (p \<noteq> [] \<and> startsWith s p)" if "p \<in> set pats" for p
  proof
    assume a: "p \<noteq> [] \<and> startsWith s p"
    then obtain r where "s = p @ r" by (auto simp: startsWith_iff)
    with a have "hd s = hd p" by simp
    with assms(2) that a show False by auto
  qed
  then show "find (\<lambda>p. p \<noteq> [] \<and> startsWith s p) pats = None"
    by (simp add: find_None_iff)
qed

lemma trimEnd_prefix: "\<exists>w. s = trimEnd s @ w"
proof -
  obtain pre where "rev s = pre @ strip_leading (map rev white_space) (rev s)"
    using strip_leading_suffix by blast
  then have "rev (rev s) = rev (pre @ strip_leading (map rev white_space) (rev s))"
    by (rule arg_cong)
  then have "s = trimEnd s @ rev pre" by (simp only: rev_rev_ident rev_append trimEnd_def)
  then show ?thesis ..
qed

lemma trim_trim: "trim (trim s) = trim s"
proof -
  let ?t = "trimStart s"
  let ?u = "trimEnd ?t"
  obtain w where w: "?t = ?u @ w" using trimEnd_prefix by blast
  have nolead: "find (\<lambda>p. p \<noteq> [] \<and> startsWith ?t p) white_space = None"
    unfolding trimStart_def by (rule strip_leading_done)
  have "\<not> (p \<noteq> [] \<and> startsWith ?u p)" if "p \<in> set white_space" for p
  proof
    assume a: "p \<noteq> [] \<and> startsWith ?u p"
    then obtain r where "?u = p @ r" by (auto simp: startsWith_iff)
    with w have "?t = p @ (r @ w)" by simp
    then have "startsWith ?t p" unfolding startsWith_iff by (rule exI)
    with a that nolead show False by (auto simp: find_None_iff)
  qed
  then have "find (\<lambda>p. p \<noteq> [] \<and> startsWith ?u p) white_space = None"
    by (simp add: find_None_iff)
  then have 1: "trimStart ?u = ?u" unfolding trimStart_def [of ?u] by (rule strip_leading_None)
  have 2: "trimEnd ?u = ?u"
    by (simp add: trimEnd_def strip_leading_idem)
  show ?thesis unfolding trim_def [of s] trim_def [of ?u] 1 2 by (rule refl)
qed

text \<open>A trimmed text neither starts nor ends with a white space code point.\<close>

lemma trimmed_no_white_space:
  assumes "trim r = r" and "p \<in> set white_space"
  shows "\<not> startsWith r p \<and> \<not> startsWith (rev r) (rev p)"
proof -
  let ?t = "trimStart r"
  have pne: "p \<noteq> []"
  proof -
    have "\<forall>p\<in>set white_space. p \<noteq> []" by (simp add: white_space_def)
    with assms(2) show ?thesis by blast
  qed
  from assms(1) have r: "r = trimEnd ?t" by (simp add: trim_def)
  obtain w where w: "?t = trimEnd ?t @ w" using trimEnd_prefix by blast
  have nolead: "find (\<lambda>p. p \<noteq> [] \<and> startsWith ?t p) white_space = None"
    unfolding trimStart_def by (rule strip_leading_done)
  have 1: "\<not> startsWith r p"
  proof
    assume "startsWith r p"
    then obtain q where "r = p @ q" by (auto simp: startsWith_iff)
    with r w have "?t = p @ (q @ w)" by simp
    then have "startsWith ?t p" unfolding startsWith_iff by (rule exI)
    with pne assms(2) nolead show False by (auto simp: find_None_iff)
  qed
  have "find (\<lambda>p. p \<noteq> [] \<and> startsWith (strip_leading (map rev white_space) (rev ?t)) p)
          (map rev white_space) = None"
    by (rule strip_leading_done)
  moreover have "strip_leading (map rev white_space) (rev ?t) = rev r"
  proof -
    from r have "rev r = rev (trimEnd ?t)" by (rule arg_cong)
    then show ?thesis by (simp add: trimEnd_def)
  qed
  ultimately have "find (\<lambda>p. p \<noteq> [] \<and> startsWith (rev r) p) (map rev white_space) = None"
    by simp
  with pne assms(2) have 2: "\<not> startsWith (rev r) (rev p)"
    by (auto simp: find_None_iff)
  from 1 2 show ?thesis by (rule conjI)
qed

lemma ws_edge_lower: "ws_edge x \<Longrightarrow> lower_char x = x"
proof -
  assume "ws_edge x"
  then have x: "x \<in> set (map hd white_space @ map last white_space)"
    by (auto simp: ws_edge_def list_ex_iff)
  have "\<forall>c\<in>set (map hd white_space @ map last white_space). lower_char c = c"
    by (simp add: white_space_def lower_char_def)
  with x show ?thesis by blast
qed

lemma trim_keep:
  assumes "s \<noteq> []" and "\<not> ws_edge (hd s)" and "\<not> ws_edge (last s)"
  shows "trim s = s"
proof -
  have a: "\<forall>p\<in>set white_space. p \<noteq> [] \<longrightarrow> hd p \<noteq> hd s"
    using assms(2) by (auto simp: ws_edge_def list_ex_iff)
  have b: "\<forall>p\<in>set (map rev white_space). p \<noteq> [] \<longrightarrow> hd p \<noteq> hd (rev s)"
    using assms(1,3) by (auto simp: ws_edge_def list_ex_iff hd_rev)
  from assms(1) have ne: "rev s \<noteq> []" by simp
  have 1: "trimStart s = s" unfolding trimStart_def by (rule strip_leading_keep [OF assms(1) a])
  have 2: "trimEnd s = s" unfolding trimEnd_def strip_leading_keep [OF ne b] by simp
  show ?thesis by (simp add: trim_def 1 2)
qed

lemma trim_not_blank:
  assumes "toLowerCase cmd = w" and "w \<noteq> []" and "\<not> ws_edge (hd w)" and "\<not> ws_edge (last w)"
  shows "trim cmd \<noteq> []"
proof -
  from assms(1,2) have ne: "cmd \<noteq> []" by (auto simp: toLowerCase_def)
  then have h: "hd w = lower_char (hd cmd)" and l: "last w = lower_char (last cmd)"
    using assms(1) by (auto simp: toLowerCase_def hd_map last_map)
  have "\<not> ws_edge (hd cmd)" using assms(3) h ws_edge_lower by force
  moreover have "\<not> ws_edge (last cmd)" using assms(4) l ws_edge_lower by force
  ultimately have "trim cmd = cmd" using ne by (intro trim_keep)
  with ne show ?thesis by simp
qed

lemma white_space_find:
  assumes "p \<in> set white_space"
  shows "find (\<lambda>q. q \<noteq> [] \<and> startsWith (p @ r) q) white_space = Some p"
proof -
  have "\<forall>p\<in>set white_space. find (\<lambda>q. q \<noteq> [] \<and> startsWith (p @ r) q) white_space = Some p"
    by (simp add: white_space_def)
  with assms show ?thesis by blast
qed

lemma white_space_only_trim: "white_space_only s \<Longrightarrow> trim s = []"
proof -
  assume "white_space_only s"
  then have "trimStart s = []"
  proof (induction rule: white_space_only.induct)
    case empty
    show ?case by (simp add: trimStart_def strip_leading.simps [of _ "[]"] white_space_def)
  next
    case (more p s)
    have "trimStart (p @ s) = strip_leading white_space (drop (length p) (p @ s))"
      unfolding trimStart_def by (rule strip_leading_Some) (rule white_space_find [OF more.hyps(1)])
    with more.IH show ?case by (simp add: trimStart_def)
  qed
  moreover have "trimEnd [] = []"
    by (simp add: trimEnd_def strip_leading.simps [of _ "[]"] white_space_def)
  ultimately show ?thesis by (simp add: trim_def)
qed

lemma strip_leading_removed:
  "\<exists>ps. set ps \<subseteq> set pats \<and> s = concat ps @ strip_leading pats s"
proof (induction pats s rule: strip_leading.induct)
  case (1 pats s)
  show ?case
  proof (cases "find (\<lambda>p. p \<noteq> [] \<and> startsWith s p) pats")
    case None
    then have "set [] \<subseteq> set pats \<and> s = concat [] @ strip_leading pats s"
      by (simp add: strip_leading_None)
    then show ?thesis by (rule exI)
  next
    case (Some p)
    then have mem: "p \<in> set pats" and sw: "startsWith s p"
      by (auto simp: find_Some_iff)
    from sw obtain r where r: "s = p @ r" by (auto simp: startsWith_iff)
    then have d: "drop (length p) s = r" by simp
    from 1 [OF Some] obtain ps where ps: "set ps \<subseteq> set pats"
      and eq: "drop (length p) s = concat ps @ strip_leading pats (drop (length p) s)"
      by blast
    have "s = p @ drop (length p) s" using r by simp
    also have "\<dots> = p @ concat ps @ strip_leading pats (drop (length p) s)"
      using eq by simp
    finally have "s = concat (p # ps) @ strip_leading pats s"
      unfolding strip_leading_Some [OF Some] by simp
    with mem ps have "set (p # ps) \<subseteq> set pats \<and> s = concat (p # ps) @ strip_leading pats s"
      by simp
    then show ?thesis by (rule exI)
  qed
qed

lemma white_space_only_concat:
  "set ps \<subseteq> set white_space \<Longrightarrow> white_space_only (concat ps)"
  by (induction ps) (auto intro: white_space_only.intros)

lemma white_space_only_append:
  "white_space_only a \<Longrightarrow> white_space_only b \<Longrightarrow> white_space_only (a @ b)"
  by (induction rule: white_space_only.induct) (auto intro: white_space_only.intros)

text \<open>The texts that \<open>trim\<close> empties are the ones made of white space only.\<close>

lemma trim_blank:
  assumes "trim s = []"
  shows "white_space_only s"
proof -
  obtain ps where ps: "set ps \<subseteq> set white_space" and s: "s = concat ps @ trimStart s"
    unfolding trimStart_def using strip_leading_removed by blast
  obtain qs where qs: "set qs \<subseteq> set (map rev white_space)"
    and t: "rev (trimStart s) = concat qs @ strip_leading (map rev white_space) (rev (trimStart s))"
    using strip_leading_removed by blast
  from assms have "strip_leading (map rev white_space) (rev (trimStart s)) = []"
    by (simp add: trim_def trimEnd_def)
  with t have "rev (trimStart s) = concat qs" by simp
  then have "rev (rev (trimStart s)) = rev (concat qs)" by (rule arg_cong)
  then have u: "trimStart s = concat (map rev (rev qs))" by (simp add: rev_concat)
  from qs have "set (map rev (rev qs)) \<subseteq> set white_space" by auto
  then have "white_space_only (trimStart s)" unfolding u by (rule white_space_only_concat)
  with white_space_only_concat [OF ps] have "white_space_only (concat ps @ trimStart s)"
    by (rule white_space_only_append)
  with s show ?thesis by simp
qed

lemma trim_blank_iff: "trim s = [] \<longleftrightarrow> white_space_only s"
  using trim_blank white_space_only_trim by blast

section \<open>Properties of the chat hook\<close>

text \<open>
  C10. Calling \<open>sendMessage\<close> with an input that is empty or made of white space
  only, or while a previous call is in flight (\<open>isLoading\<close>), leaves the state
  (message list and loading flag) as it was and issues no call to the generation
  service.
\<close>

theorem sendMessage_guard:
  "white_space_only inputText \<or> isLoading st \<Longrightarrow> sendMessage now inputText st = (st, None)"
  by (auto simp: sendMessage_def white_space_only_trim)

theorem sendMessage_guard_witness:
  "white_space_only blank_input
   \<and> sendMessage 5 blank_input chat_init = (chat_init, None)
   \<and> sendMessage 6 [] chat_init = (chat_init, None)
   \<and> isLoading (fst (sendMessage 7 ''oi'' chat_init))
   \<and> sendMessage 9 ''de novo'' (fst (sendMessage 7 ''oi'' chat_init))
       = (fst (sendMessage 7 ''oi'' chat_init), None)"
proof -
  have "white_space_only ([CHR 0xC2, CHR 0xA0] @ [CHR 0xE3, CHR 0x80, CHR 0x80] @ '' '' @ [LF] @ [])"
    by (intro white_space_only.intros) (simp_all add: white_space_def LF_def)
  then have blank: "white_space_only blank_input" by (simp add: blank_input_def)
  have busy: "isLoading (fst (sendMessage 7 ''oi'' chat_init))"
    by (simp add: sendMessage_def chat_init_def trim_def trimStart_def trimEnd_def
        strip_leading.simps white_space_def)
  have a: "sendMessage 5 blank_input chat_init = (chat_init, None)"
    by (rule sendMessage_guard [of blank_input chat_init 5, OF disjI1, OF blank])
  have e: "sendMessage 6 [] chat_init = (chat_init, None)"
    by (rule sendMessage_guard [of "[]" chat_init 6, OF disjI1, OF white_space_only.empty])
  have b: "sendMessage 9 ''de novo'' (fst (sendMessage 7 ''oi'' chat_init))
       = (fst (sendMessage 7 ''oi'' chat_init), None)"
    by (rule sendMessage_guard [of "''de novo''" "fst (sendMessage 7 ''oi'' chat_init)" 9,
          OF disjI2, OF busy])
  show ?thesis by (intro conjI) (rule blank a e busy b)+
qed

text \<open>Any other call appends the user's message and issues the call.\<close>

lemma sendMessage_sends:
  "\<not> white_space_only inputText \<Longrightarrow> \<not> isLoading st \<Longrightarrow>
   snd (sendMessage now inputText st) = Some inputText
   \<and> length (messages (fst (sendMessage now inputText st))) = Suc (length (messages st))"
  by (simp add: sendMessage_def trim_blank_iff Let_def)

section \<open>Properties of the executor\<close>

lemma outcome_0: "outcome operation s 0 = fst (operation s)"
  by (simp add: outcome_def)

lemma outcome_Suc: "outcome operation s (Suc k) = outcome operation (snd (operation s)) k"
  by (simp add: outcome_def)

lemma fails_retryably_Suc:
  "fails_retryably operation s (Suc k) = fails_retryably operation (snd (operation s)) k"
  by (simp add: fails_retryably_def outcome_Suc)

lemma retry_loop_last:
  assumes "attempt \<le> maxRetries" and "attempt < maxRetries \<Longrightarrow> \<not> fails_retryably operation s 0"
  shows "retry_loop operation maxRetries initialDelay attempt lastError s tr
         = (settled (outcome operation s 0), op_state operation s 1, tr @ [Attempt])"
  using assms
  by (subst retry_loop.simps)
     (auto simp: settled_def outcome_0 fails_retryably_def split: prod.splits sum.splits)

lemma retry_loop_run:
  assumes "attempt \<le> maxRetries"
    and "\<forall>k<N. fails_retryably operation s k"
    and "attempt + N < maxRetries \<longrightarrow> \<not> fails_retryably operation s N"
  shows "retry_loop operation maxRetries initialDelay attempt lastError s tr
         = (settled (outcome operation s (min N (maxRetries - attempt))),
            op_state operation s (Suc (min N (maxRetries - attempt))),
            tr @ concat (map (retry_events maxRetries initialDelay)
                          [attempt ..< attempt + min N (maxRetries - attempt)]) @ [Attempt])"
  using assms
proof (induction N arbitrary: attempt lastError s tr)
  case 0
  then show ?case using retry_loop_last [of attempt maxRetries operation s] by simp
next
  case (Suc N)
  show ?case
  proof (cases "attempt = maxRetries")
    case True
    then show ?thesis using retry_loop_last [of attempt maxRetries operation s] by simp
  next
    case False
    with Suc.prems have lt: "attempt < maxRetries" by simp
    from Suc.prems have f0: "fails_retryably operation s 0" by simp
    then obtain e s' where os: "operation s = (Inl e, s')" and re: "isRetryable e"
      by (cases "operation s"; cases "fst (operation s)")
         (auto simp: fails_retryably_def outcome_0)
    have step: "retry_loop operation maxRetries initialDelay attempt lastError s tr
          = retry_loop operation maxRetries initialDelay (attempt + 1) (Some e) s'
              (tr @ retry_events maxRetries initialDelay attempt)"
      using lt os re by (subst retry_loop.simps) (simp add: retry_events_def Let_def)
    have h1: "\<forall>k<N. fails_retryably operation s' k"
      using Suc.prems(2) os by (auto simp: fails_retryably_Suc dest: spec [where x = "Suc _"])
    have h2: "attempt + 1 + N < maxRetries \<longrightarrow> \<not> fails_retryably operation s' N"
      using Suc.prems(3) os by (simp add: fails_retryably_Suc)
    have m: "min (Suc N) (maxRetries - attempt) = Suc (min N (maxRetries - (attempt + 1)))"
      using lt by auto
    have u: "[attempt ..< attempt + Suc (min N (maxRetries - (attempt + 1)))]
             = attempt # [attempt + 1 ..< attempt + 1 + min N (maxRetries - (attempt + 1))]"
      by (subst upt_rec) simp
    from lt have le1: "attempt + 1 \<le> maxRetries" by simp
    show ?thesis
      unfolding step Suc.IH [OF le1 h1 h2] m u
      using os by (simp add: outcome_Suc)
  qed
qed

lemma attempts_of_append: "attempts_of (xs @ ys) = attempts_of xs + attempts_of ys"
  by (induction xs rule: attempts_of.induct) simp_all

lemma delays_of_append: "delays_of (xs @ ys) = delays_of xs @ delays_of ys"
  by (induction xs rule: delays_of.induct) simp_all

lemma attempts_of_retry_events:
  "attempts_of (concat (map (retry_events maxRetries initialDelay) ks)) = length ks"
  by (induction ks) (simp_all add: attempts_of_append retry_events_def)

lemma delays_of_retry_events:
  "delays_of (concat (map (retry_events maxRetries initialDelay) ks))
   = map (\<lambda>attempt. initialDelay * 2 ^ attempt) ks"
  by (induction ks) (simp_all add: delays_of_append retry_events_def)

lemma backoff_increasing:
  assumes "0 < (initialDelay :: int)"
  shows "sorted_wrt (<) (map (\<lambda>attempt. initialDelay * 2 ^ attempt) [0..<m])"
proof -
  have step: "initialDelay * 2 ^ i < initialDelay * 2 ^ j" if "i < j" for i j :: nat
  proof -
    have "(2::int) ^ i < 2 ^ j"
      using that by (rule power_strict_increasing) simp
    then show ?thesis
      using assms by (rule mult_strict_left_mono)
  qed
  have "sorted_wrt (\<lambda>i j. initialDelay * 2 ^ i < initialDelay * 2 ^ j) [0..<m]"
    by (rule sorted_wrt_mono_rel [OF _ sorted_wrt_upt]) (rule step)
  then show ?thesis by (simp only: sorted_wrt_map)
qed

lemma isRetryable_quota: "isRetryable quota_error"
  by (simp add: isRetryable_def quota_error_def or_else_def toLowerCase_def lower_char_def)

lemma not_isRetryable_not_found: "\<not> isRetryable not_found_error"
  by (simp add: isRetryable_def not_found_error_def or_else_def toLowerCase_def lower_char_def)

text \<open>
  C1. When the first \<open>N\<close> attempts fail retryably (and attempt \<open>N + 1\<close>, if the
  retries allow it, does not), \<open>retryOperation\<close> calls the operation
  \<open>min (N + 1) (maxRetries + 1)\<close> times. Every failed attempt \<open>attempt\<close> that is retried is
  followed by a warning and a wait of \<open>initialDelay * 2 ^ attempt\<close> milliseconds before
  the next call, so the delays are strictly increasing for a positive
  \<open>initialDelay\<close>. The defaults are \<open>maxRetries = 3\<close> and \<open>initialDelay = 2000\<close>.
\<close>

theorem retryOperation_backoff:
  assumes "\<forall>k<N. fails_retryably operation s k"
    and "N < maxRetries \<longrightarrow> \<not> fails_retryably operation s N"
  shows "events_of (retryOperation operation maxRetries initialDelay s)
           = concat (map (retry_events maxRetries initialDelay) [0..<min N maxRetries]) @ [Attempt]
       \<and> attempts_of (events_of (retryOperation operation maxRetries initialDelay s))
           = min (N + 1) (maxRetries + 1)
       \<and> delays_of (events_of (retryOperation operation maxRetries initialDelay s))
           = map (\<lambda>attempt. initialDelay * 2 ^ attempt) [0..<min N maxRetries]
       \<and> (0 < initialDelay \<longrightarrow>
            sorted_wrt (<) (delays_of (events_of (retryOperation operation maxRetries initialDelay s))))
       \<and> retryOperation_default operation s = retryOperation operation 3 2000 s"
proof -
  have ev: "events_of (retryOperation operation maxRetries initialDelay s)
           = concat (map (retry_events maxRetries initialDelay) [0..<min N maxRetries]) @ [Attempt]"
    using retry_loop_run [of 0 maxRetries N operation s initialDelay None "[]"] assms
    by (simp add: retryOperation_def events_of_def)
  have dl: "delays_of (events_of (retryOperation operation maxRetries initialDelay s))
           = map (\<lambda>attempt. initialDelay * 2 ^ attempt) [0..<min N maxRetries]"
    by (simp add: ev delays_of_append delays_of_retry_events)
  have at: "attempts_of (events_of (retryOperation operation maxRetries initialDelay s))
           = min (N + 1) (maxRetries + 1)"
    by (simp add: ev attempts_of_append attempts_of_retry_events)
  have inc: "0 < initialDelay \<longrightarrow>
            sorted_wrt (<) (delays_of (events_of (retryOperation operation maxRetries initialDelay s)))"
    unfolding dl using backoff_increasing by blast
  from ev at dl inc show ?thesis by (simp add: retryOperation_default_def)
qed

lemma flaky_fails: "fails_retryably flaky 0 0" "fails_retryably flaky 0 1" "\<not> fails_retryably flaky 0 2"
  by (simp_all add: fails_retryably_def outcome_def flaky_def isRetryable_def Let_def numeral_2_eq_2)

theorem retryOperation_backoff_witness:
  "fails_retryably flaky 0 0 \<and> fails_retryably flaky 0 1 \<and> \<not> fails_retryably flaky 0 2
   \<and> attempts_of (events_of (retryOperation_default flaky 0)) = 3
   \<and> delays_of (events_of (retryOperation_default flaky 0)) = [2000, 4000]
   \<and> events_of (retryOperation_default flaky 0)
       = [Attempt, Warn 1 4 2000, Wait 2000, Attempt, Warn 2 4 4000, Wait 4000, Attempt]
   \<and> sorted_wrt (<) (delays_of (events_of (retryOperation_default flaky 0)))"
proof -
  have h1: "\<forall>k<2. fails_retryably flaky 0 k"
    using flaky_fails by (auto simp: less_Suc_eq numeral_2_eq_2)
  have h2: "(2::nat) < 3 \<longrightarrow> \<not> fails_retryably flaky 0 2"
    using flaky_fails by simp
  have up: "[0..<2] = [0, Suc 0]" by (simp add: numeral_2_eq_2)
  show ?thesis
    using retryOperation_backoff [OF h1 h2, of 2000] flaky_fails
    by (simp add: up retry_events_def)
qed

lemma retryOperation_last_attempt:
  "\<exists>m\<le>maxRetries.
     fst (retryOperation operation maxRetries initialDelay s) = settled (outcome operation s m)
     \<and> attempts_of (events_of (retryOperation operation maxRetries initialDelay s)) = m + 1"
proof -
  define N where "N = (LEAST k. \<not> fails_retryably operation s k \<or> k = maxRetries)"
  have PN: "\<not> fails_retryably operation s N \<or> N = maxRetries"
    unfolding N_def by (rule LeastI [of _ maxRetries]) simp
  have le: "N \<le> maxRetries"
    unfolding N_def by (rule Least_le) simp
  have before: "\<forall>k<N. fails_retryably operation s k"
  proof (intro allI impI)
    fix k assume "k < N"
    then have "\<not> (\<not> fails_retryably operation s k \<or> k = maxRetries)"
      unfolding N_def by (rule not_less_Least)
    then show "fails_retryably operation s k" by simp
  qed
  from PN have stop: "0 + N < maxRetries \<longrightarrow> \<not> fails_retryably operation s N" by auto
  have m: "min N (maxRetries - 0) = N" using le by simp
  have run: "retryOperation operation maxRetries initialDelay s
     = (settled (outcome operation s N), op_state operation s (Suc N),
        [] @ concat (map (retry_events maxRetries initialDelay) [0..<0 + N]) @ [Attempt])"
    unfolding retryOperation_def
    using retry_loop_run [of 0 maxRetries N operation s initialDelay None "[]"] before stop
    unfolding m by simp
  have "fst (retryOperation operation maxRetries initialDelay s) = settled (outcome operation s N)"
    by (simp add: run)
  moreover have "attempts_of (events_of (retryOperation operation maxRetries initialDelay s)) = N + 1"
    by (simp add: run events_of_def attempts_of_append attempts_of_retry_events)
  ultimately show ?thesis using le by blast
qed

text \<open>
  C2. A first failure that is not retryable is thrown again at once and unchanged: the
  operation has been called exactly once and nothing was waited for. When the retries
  are used up (the first \<open>maxRetries\<close> attempts failed retryably) the failure of the
  last attempt, whatever it is, is thrown unchanged after \<open>maxRetries + 1\<close> calls. In
  every run, what the executor returns or throws is what its last attempt returned or
  threw.
\<close>

theorem retryOperation_propagates:
  "(outcome operation s 0 = Inl e \<and> \<not> isRetryable e \<longrightarrow>
      retryOperation operation maxRetries initialDelay s
        = (Inl (Some e), snd (operation s), [Attempt]))
   \<and> ((\<forall>k<maxRetries. fails_retryably operation s k) \<and> outcome operation s maxRetries = Inl e' \<longrightarrow>
      fst (retryOperation operation maxRetries initialDelay s) = Inl (Some e')
      \<and> attempts_of (events_of (retryOperation operation maxRetries initialDelay s)) = maxRetries + 1)
   \<and> (\<exists>m\<le>maxRetries.
        fst (retryOperation operation maxRetries initialDelay s) = settled (outcome operation s m)
        \<and> attempts_of (events_of (retryOperation operation maxRetries initialDelay s)) = m + 1)"
proof (intro conjI impI)
  assume a: "outcome operation s 0 = Inl e \<and> \<not> isRetryable e"
  then have "0 < maxRetries \<longrightarrow> \<not> fails_retryably operation s 0"
    by (simp add: fails_retryably_def)
  then show "retryOperation operation maxRetries initialDelay s
        = (Inl (Some e), snd (operation s), [Attempt])"
    using retry_loop_run [of 0 maxRetries 0 operation s initialDelay None "[]"] a
    by (simp add: retryOperation_def settled_def)
next
  assume b: "(\<forall>k<maxRetries. fails_retryably operation s k) \<and> outcome operation s maxRetries = Inl e'"
  then have run: "retryOperation operation maxRetries initialDelay s
     = (Inl (Some e'), op_state operation s (Suc maxRetries),
        concat (map (retry_events maxRetries initialDelay) [0..<maxRetries]) @ [Attempt])"
    using retry_loop_run [of 0 maxRetries maxRetries operation s initialDelay None "[]"]
    by (simp add: retryOperation_def settled_def)
  show "fst (retryOperation operation maxRetries initialDelay s) = Inl (Some e')"
    by (simp add: run)
  show "attempts_of (events_of (retryOperation operation maxRetries initialDelay s)) = maxRetries + 1"
    by (simp add: run events_of_def attempts_of_append attempts_of_retry_events)
next
  show "\<exists>m\<le>maxRetries.
        fst (retryOperation operation maxRetries initialDelay s) = settled (outcome operation s m)
        \<and> attempts_of (events_of (retryOperation operation maxRetries initialDelay s)) = m + 1"
    by (rule retryOperation_last_attempt)
qed

lemma always_outcome: "outcome (always e) () k = Inl e"
  by (simp add: outcome_def always_def)

theorem retryOperation_propagates_witness:
  "outcome (always not_found_error) () 0 = Inl not_found_error \<and> \<not> isRetryable not_found_error
   \<and> retryOperation_default (always not_found_error) () = (Inl (Some not_found_error), (), [Attempt])
   \<and> fails_retryably (always quota_error) () 0 \<and> fails_retryably (always quota_error) () 1
   \<and> fails_retryably (always quota_error) () 2 \<and> outcome (always quota_error) () 3 = Inl quota_error
   \<and> fst (retryOperation_default (always quota_error) ()) = Inl (Some quota_error)
   \<and> attempts_of (events_of (retryOperation_default (always quota_error) ())) = 4"
proof -
  have f: "fails_retryably (always quota_error) () k" for k
    by (simp add: fails_retryably_def always_outcome isRetryable_quota)
  have a1: "outcome (always not_found_error) () 0 = Inl not_found_error"
    by (rule always_outcome)
  have a2: "\<not> isRetryable not_found_error"
    by (rule not_isRetryable_not_found)
  have b0: "\<forall>k<3. fails_retryably (always quota_error) () k"
    by (simp add: f)
  have b1: "outcome (always quota_error) () 3 = Inl quota_error"
    by (rule always_outcome)
  note r1 = retryOperation_propagates
      [of "always not_found_error" "()" not_found_error 3 2000, THEN conjunct1, THEN mp,
       OF conjI, OF a1 a2]
  note r2 = retryOperation_propagates
      [of "always quota_error" "()" _ 3 2000 quota_error, THEN conjunct2, THEN conjunct1,
       THEN mp, OF conjI, OF b0 b1]
  have r1': "retryOperation_default (always not_found_error) () = (Inl (Some not_found_error), (), [Attempt])"
    unfolding retryOperation_default_def r1 by (simp add: always_def)
  have r3: "fst (retryOperation_default (always quota_error) ()) = Inl (Some quota_error)"
    unfolding retryOperation_default_def by (rule r2 [THEN conjunct1])
  have r4: "attempts_of (events_of (retryOperation_default (always quota_error) ())) = 4"
    unfolding retryOperation_default_def using r2 [THEN conjunct2] by simp
  show ?thesis
    by (intro conjI) (rule a1 a2 r1' f b1 r3 r4)+
qed

section \<open>Properties of the reply extractors\<close>

lemma strip_close_fenced: "strip_close (body @ fence) = body"
  by (simp add: strip_close_def endsWith_def startsWith_append fence_def)

lemma toLowerCase_append: "toLowerCase (a @ b) = toLowerCase a @ toLowerCase b"
  by (simp add: toLowerCase_def)

lemma toLowerCase_fence: "toLowerCase fence = fence" "toLowerCase [LF] = [LF]"
  by (simp_all add: toLowerCase_def lower_char_def fence_def LF_def)

lemma clean_plain_block:
  "simulateRNTCommand (Inr (Some (fence @ [LF] @ body @ fence))) = trim body"
proof -
  let ?t = "fence @ [LF] @ body @ fence"
  have ne: "or_else (Some ?t) [] = ?t" by (simp add: or_else_def fence_def)
  have 1: "strip_open_rnt ?t = ?t"
    by (simp add: strip_open_rnt_def toLowerCase_def lower_char_def fence_def LF_def)
  have 2: "strip_open ?t = body @ fence"
    by (simp add: strip_open_def fence_def LF_def)
  show ?thesis
    unfolding simulateRNTCommand_def Let_def sum.case ne 1 2 strip_close_fenced by (rule refl)
qed

lemma clean_rnt_block:
  assumes "toLowerCase label = ''rnt''" and "\<not> startsWith (body @ fence) (fence @ [LF])"
  shows "simulateRNTCommand (Inr (Some (fence @ label @ [LF] @ body @ fence))) = trim body"
proof -
  let ?t = "fence @ label @ [LF] @ body @ fence"
  have ne: "or_else (Some ?t) [] = ?t" by (simp add: or_else_def fence_def)
  from assms(1) have len: "length label = 3"
    by (metis length_map toLowerCase_def length_Cons list.size(3) numeral_3_eq_3)
  have low: "toLowerCase ?t = (fence @ ''rnt'' @ [LF]) @ toLowerCase (body @ fence)"
    by (simp only: toLowerCase_append toLowerCase_fence assms(1) append_assoc)
  have "startsWith (toLowerCase ?t) (fence @ ''rnt'' @ [LF])"
    unfolding low by (rule startsWith_append)
  moreover have "drop 7 ?t = body @ fence" using len by (simp add: fence_def)
  ultimately have 1: "strip_open_rnt ?t = body @ fence" by (simp add: strip_open_rnt_def)
  have 2: "strip_open (body @ fence) = body @ fence" using assms(2) by (simp add: strip_open_def)
  show ?thesis
    unfolding simulateRNTCommand_def Let_def sum.case ne 1 2 strip_close_fenced by (rule refl)
qed

lemma simulateRNTCommand_trimmed:
  "trim (simulateRNTCommand (Inr response_text)) = simulateRNTCommand (Inr response_text)"
  by (simp add: simulateRNTCommand_def Let_def trim_trim)

text \<open>
  C8. What \<open>simulateRNTCommand\<close> returns for a reply of the service has no white space
  around it: it is a text that \<open>trim\<close> leaves as it is. A reply that is one fenced
  block, from an opening line \<open>```\<close> or \<open>```rnt\<close> (in any letter case) to a
  closing fence that ends the reply, gives the trimmed content of the block; a reply
  with no fence at either end gives the trimmed reply. \<open>simulateTelnetCommand\<close>
  returns the reply as it is.
\<close>

theorem terminal_reply_cleaning:
  "trim (simulateRNTCommand (Inr response_text)) = simulateRNTCommand (Inr response_text)
   \<and> simulateRNTCommand (Inr (Some (fence @ [LF] @ body @ fence))) = trim body
   \<and> (toLowerCase label = ''rnt'' \<and> \<not> startsWith (body @ fence) (fence @ [LF]) \<longrightarrow>
        simulateRNTCommand (Inr (Some (fence @ label @ [LF] @ body @ fence))) = trim body)
   \<and> (\<not> startsWith (toLowerCase reply) (fence @ ''rnt'' @ [LF])
        \<and> \<not> startsWith reply (fence @ [LF]) \<and> \<not> endsWith reply fence \<longrightarrow>
        simulateRNTCommand (Inr (Some reply)) = trim reply)
   \<and> (reply \<noteq> [] \<longrightarrow> simulateTelnetCommand (Inr (Some reply)) = reply)"
proof -
  have plain: "\<not> startsWith (toLowerCase reply) (fence @ ''rnt'' @ [LF])
        \<and> \<not> startsWith reply (fence @ [LF]) \<and> \<not> endsWith reply fence \<longrightarrow>
        simulateRNTCommand (Inr (Some reply)) = trim reply"
    by (cases "reply = []")
       (simp_all add: simulateRNTCommand_def or_else_def strip_open_rnt_def strip_open_def
          strip_close_def Let_def)
  have telnet: "reply \<noteq> [] \<longrightarrow> simulateTelnetCommand (Inr (Some reply)) = reply"
    by (simp add: simulateTelnetCommand_def or_else_def)
  from simulateRNTCommand_trimmed [of response_text] clean_plain_block [of body]
    clean_rnt_block [of label body] plain telnet
  show ?thesis by blast
qed

theorem terminal_reply_cleaning_witness:
  "toLowerCase ''RNT'' = ''rnt''
   \<and> \<not> startsWith (padded_body @ fence) (fence @ [LF])
   \<and> simulateRNTCommand (Inr (Some (fence @ ''RNT'' @ [LF] @ padded_body @ fence))) = ''hello''
   \<and> \<not> startsWith (toLowerCase padded_reply) (fence @ ''rnt'' @ [LF])
   \<and> \<not> startsWith padded_reply (fence @ [LF])
   \<and> \<not> endsWith padded_reply fence
   \<and> simulateRNTCommand (Inr (Some padded_reply)) = ''ok''
   \<and> padded_reply \<noteq> []
   \<and> simulateTelnetCommand (Inr (Some padded_reply)) = padded_reply"
proof -
  have h1: "toLowerCase ''RNT'' = ''rnt''"
    by (simp add: toLowerCase_def lower_char_def)
  have h2: "\<not> startsWith (padded_body @ fence) (fence @ [LF])"
    by (simp add: padded_body_def fence_def)
  have h3: "\<not> startsWith (toLowerCase padded_reply) (fence @ ''rnt'' @ [LF])"
    by (simp add: padded_reply_def toLowerCase_def lower_char_def fence_def)
  have h4: "\<not> startsWith padded_reply (fence @ [LF])"
    by (simp add: padded_reply_def fence_def)
  have h5: "\<not> endsWith padded_reply fence"
    by (simp add: padded_reply_def endsWith_def fence_def)
  have h6: "padded_reply \<noteq> []" by (simp add: padded_reply_def)
  have t1: "trim padded_body = ''hello''"
    by (simp add: padded_body_def trim_def trimStart_def trimEnd_def strip_leading.simps
        white_space_def)
  have t2: "trim padded_reply = ''ok''"
    by (simp add: padded_reply_def trim_def trimStart_def trimEnd_def strip_leading.simps
        white_space_def)
  note inst = terminal_reply_cleaning
      [where label = "''RNT''" and body = padded_body and reply = padded_reply]
  note r1 = inst [THEN conjunct2, THEN conjunct2, THEN conjunct1, THEN mp, OF conjI, OF h1 h2,
      unfolded t1]
  note r2 = inst [THEN conjunct2, THEN conjunct2, THEN conjunct2, THEN conjunct1, THEN mp,
      OF conjI, OF h3 conjI, OF h4 h5, unfolded t2]
  note r3 = inst [THEN conjunct2, THEN conjunct2, THEN conjunct2, THEN conjunct2, THEN mp, OF h6]
  show ?thesis
    by (intro conjI) (rule h1 h2 r1 h3 h4 h5 r2 h6 r3)+
qed

text \<open>
  A Telnet reply wrapped in a fenced block reaches the transcript with its fences and
  its final line feed.
\<close>

theorem telnet_reply_verbatim_counterexample:
  "simulateTelnetCommand (Inr (Some fenced_reply)) = fence @ [LF] @ ''hello'' @ [LF] @ fence @ [LF]
   \<and> simulateTelnetCommand (Inr (Some fenced_reply)) \<noteq> ''hello''"
  by (simp add: simulateTelnetCommand_def or_else_def fenced_reply_def fence_def)

text \<open>
  The same reply through \<open>simulateRNTCommand\<close>: the closing fence is followed by a line
  feed, so \<open>/```$/\<close>, tried before the text is trimmed, does not match it.
\<close>

lemma simulateRNTCommand_keeps_closing_fence:
  "simulateRNTCommand (Inr (Some fenced_reply)) = ''hello'' @ [LF] @ fence"
  by (simp add: simulateRNTCommand_def fenced_reply_def or_else_def strip_open_rnt_def
      strip_open_def strip_close_def endsWith_def fence_def LF_def toLowerCase_def lower_char_def
      trim_def trimStart_def trimEnd_def strip_leading.simps white_space_def)

text \<open>
  C7. \<open>simulateFrameworkExecution\<close> returns a result in every case. When the reply
  parses to an object, a missing (or falsy) \<open>responseBody\<close> is replaced by the
  empty-response notice and a missing (or falsy) \<open>serverLogs\<close> by the
  log-parse-failure notice. When the call or \<open>JSON.parse\<close> throws, the result is the
  one of the \<open>catch\<close> block: the quota page when the error's message contains
  \<open>429\<close>, otherwise the 500 page with a log line that ends with the error.
\<close>

theorem simulateFrameworkExecution_fallbacks:
  "(parse (or_else response_text ''{}'') = Inr (JObj kvs) \<longrightarrow>
      simulateFrameworkExecution parse (Inr response_text)
        = \<lparr> f_output = json_or (map_of kvs ''responseBody'') empty_response_notice,
            f_logs = json_or (map_of kvs ''serverLogs'') log_parse_notice \<rparr>
      \<and> (map_of kvs ''responseBody'' = None \<longrightarrow>
           f_output (simulateFrameworkExecution parse (Inr response_text)) = JStr empty_response_notice)
      \<and> (map_of kvs ''serverLogs'' = None \<longrightarrow>
           f_logs (simulateFrameworkExecution parse (Inr response_text)) = JStr log_parse_notice))
   \<and> (parse (or_else response_text ''{}'') = Inl e \<longrightarrow>
      simulateFrameworkExecution parse (Inr response_text)
        = (if message_includes e ''429'' then quota_result else simulation_failed e))
   \<and> simulateFrameworkExecution parse (Inl e)
        = (if message_includes e ''429'' then quota_result else simulation_failed e)"
  by (simp add: simulateFrameworkExecution_def framework_try_def framework_catch_def json_or_def)

theorem simulateFrameworkExecution_fallbacks_witness:
  "parse_sample (or_else None ''{}'') = Inr (JObj [])
   \<and> simulateFrameworkExecution parse_sample (Inr None)
       = \<lparr> f_output = JStr empty_response_notice, f_logs = JStr log_parse_notice \<rparr>
   \<and> parse_sample (or_else (Some ''oops'') ''{}'') = Inl syntax_error
   \<and> simulateFrameworkExecution parse_sample (Inr (Some ''oops''))
       = \<lparr> f_output = JStr ''<h1>500 Internal Server Error (Simulation Failed)</h1>'',
           f_logs = JStr ''CRITICAL: Simulation failed due to API error: SyntaxError: Unexpected token'' \<rparr>"
proof -
  have p1: "parse_sample (or_else None ''{}'') = Inr (JObj [])"
    by (simp add: parse_sample_def or_else_def)
  have p2: "parse_sample (or_else (Some ''oops'') ''{}'') = Inl syntax_error"
    by (simp add: parse_sample_def or_else_def both_fields_def)
  have m: "\<not> message_includes syntax_error ''429''"
    by (simp add: message_includes_def syntax_error_def)
  from p1 simulateFrameworkExecution_fallbacks [of parse_sample None "[]"]
  have r1: "simulateFrameworkExecution parse_sample (Inr None)
       = \<lparr> f_output = JStr empty_response_notice, f_logs = JStr log_parse_notice \<rparr>"
    by (simp add: json_or_def)
  from p2 m simulateFrameworkExecution_fallbacks [of parse_sample "Some ''oops''" _ syntax_error]
  have r2: "simulateFrameworkExecution parse_sample (Inr (Some ''oops'')) = simulation_failed syntax_error"
    by simp
  have r3: "simulation_failed syntax_error
       = \<lparr> f_output = JStr ''<h1>500 Internal Server Error (Simulation Failed)</h1>'',
           f_logs = JStr ''CRITICAL: Simulation failed due to API error: SyntaxError: Unexpected token'' \<rparr>"
    by (simp add: simulation_failed_def error_toString_def syntax_error_def)
  show ?thesis
    by (intro conjI) (rule p1 r1 p2 r2 [unfolded r3])+
qed

text \<open>
  A reply that does not parse does not get the empty-response and log-parse-failure
  notices: it gets the 500 page and the log line of the \<open>catch\<close> block.
\<close>

theorem simulateFrameworkExecution_parse_failure_counterexample:
  "parse_sample (or_else (Some ''oops'') ''{}'') = Inl syntax_error
   \<and> f_output (simulateFrameworkExecution parse_sample (Inr (Some ''oops'')))
       = JStr ''<h1>500 Internal Server Error (Simulation Failed)</h1>''
   \<and> f_output (simulateFrameworkExecution parse_sample (Inr (Some ''oops'')))
       \<noteq> JStr empty_response_notice
   \<and> f_logs (simulateFrameworkExecution parse_sample (Inr (Some ''oops'')))
       \<noteq> JStr log_parse_notice"
  by (simp add: simulateFrameworkExecution_def framework_try_def framework_catch_def
      parse_sample_def or_else_def both_fields_def message_includes_def syntax_error_def
      simulation_failed_def error_toString_def empty_response_notice_def log_parse_notice_def)

section \<open>Properties of the Julia renderer\<close>

lemma plot_parts_eq:
  assumes "plot_parts s = Some (pre, content, post)"
  shows "s = pre @ plot_open @ content @ plot_close @ post"
    and "replace_first (plot_open @ content @ plot_close) [] s = pre @ post"
proof -
  from assms obtain rest where 1: "split_first plot_open s = Some (pre, rest)"
    and 2: "split_first plot_close rest = Some (content, post)"
    by (auto simp: plot_parts_def split: option.splits)
  from 2 have rest: "rest = content @ plot_close @ post" by (rule split_first_eq)
  with 1 show "s = pre @ plot_open @ content @ plot_close @ post"
    using split_first_eq by blast
  from 1 rest have "split_first plot_open s = Some (pre, (content @ plot_close) @ post)" by simp
  then have "split_first (plot_open @ content @ plot_close) s = Some (pre, post)"
    by (rule split_first_extend)
  then show "replace_first (plot_open @ content @ plot_close) [] s = pre @ post"
    by (simp add: replace_first_def)
qed

text \<open>
  C6. For a Julia reply with a chart block (the regular expression matches: the reply
  is \<open>pre\<close>, the opening line, the block's content, the closing fence, \<open>post\<close>):
  when the content does not parse, the output is the whole reply, block included, with
  the chart-failure notice appended, and no chart is set; when it parses, the output
  is the reply without the block (\<open>pre @ post\<close>) and the parsed document is the
  chart data. In both cases the run ends normally (\<open>isExecuting\<close> is off again).
\<close>

theorem runSimulation_chart_block:
  assumes "r_text response = Some s"
    and "\<not> truthy (r_errorMessage response)"
    and "plot_parts s = Some (pre, content, post)"
  shows "s = pre @ plot_open @ content @ plot_close @ post
       \<and> \<not> isExecuting (runSimulation_resume parse (Inr response) (fst (runSimulation st)))
       \<and> (parse content = Inl e \<longrightarrow>
            j_output (runSimulation_resume parse (Inr response) (fst (runSimulation st)))
              = s @ chart_failure_notice
            \<and> plotData (runSimulation_resume parse (Inr response) (fst (runSimulation st))) = JNull)
       \<and> (parse content = Inr j \<longrightarrow>
            j_output (runSimulation_resume parse (Inr response) (fst (runSimulation st)))
              = pre @ post
            \<and> plotData (runSimulation_resume parse (Inr response) (fst (runSimulation st))) = j)"
proof -
  have eq: "s = pre @ plot_open @ content @ plot_close @ post"
    using assms(3) by (rule plot_parts_eq(1))
  have rep: "replace_first (plot_open @ content @ plot_close) [] s = pre @ post"
    using assms(3) by (rule plot_parts_eq(2))
  have "plot_open \<noteq> []" by (simp add: plot_open_def)
  with eq have ne: "s \<noteq> []" by simp
  have pm: "plot_match s = Some (plot_open @ content @ plot_close, content)"
    using assms(3) by (simp add: plot_match_def)
  have dt: "or_else (r_text response) no_output_notice = s"
    using assms(1) ne by (simp add: or_else_def)
  have fin: "\<not> isExecuting (runSimulation_resume parse (Inr response) (fst (runSimulation st)))"
    by (simp add: runSimulation_resume_def Let_def)
  have bad: "parse content = Inl e \<longrightarrow>
            j_output (runSimulation_resume parse (Inr response) (fst (runSimulation st)))
              = s @ chart_failure_notice
            \<and> plotData (runSimulation_resume parse (Inr response) (fst (runSimulation st))) = JNull"
    using assms(1,2) pm dt by (simp add: runSimulation_resume_def runSimulation_def Let_def)
  have good: "parse content = Inr j \<longrightarrow>
            j_output (runSimulation_resume parse (Inr response) (fst (runSimulation st)))
              = pre @ post
            \<and> plotData (runSimulation_resume parse (Inr response) (fst (runSimulation st))) = j"
    using assms(1,2) pm dt rep by (simp add: runSimulation_resume_def runSimulation_def Let_def)
  from eq fin bad good show ?thesis by blast
qed

lemma plot_parts_chart_reply_bad:
  "plot_parts (chart_reply ''{bad'') = Some (''Resultado:'' @ [LF], ''{bad'', [LF] @ ''Fim.'')"
  by (simp add: plot_parts_def chart_reply_def plot_open_def plot_close_def fence_def LF_def)

lemma plot_parts_chart_reply_good:
  "plot_parts (chart_reply ''{}'') = Some (''Resultado:'' @ [LF], ''{}'', [LF] @ ''Fim.'')"
  by (simp add: plot_parts_def chart_reply_def plot_open_def plot_close_def fence_def LF_def)

theorem runSimulation_chart_block_witness:
  "plot_parts (chart_reply ''{bad'') = Some (''Resultado:'' @ [LF], ''{bad'', [LF] @ ''Fim.'')
   \<and> parse_sample ''{bad'' = Inl syntax_error
   \<and> j_output (runSimulation_resume parse_sample (Inr (text_reply (chart_reply ''{bad'')))
        (fst (runSimulation julia_init)))
      = chart_reply ''{bad'' @ chart_failure_notice
   \<and> plot_parts (chart_reply ''{}'') = Some (''Resultado:'' @ [LF], ''{}'', [LF] @ ''Fim.'')
   \<and> parse_sample ''{}'' = Inr (JObj [])
   \<and> j_output (runSimulation_resume parse_sample (Inr (text_reply (chart_reply ''{}'')))
        (fst (runSimulation julia_init)))
      = ''Resultado:'' @ [LF] @ [LF] @ ''Fim.''
   \<and> plotData (runSimulation_resume parse_sample (Inr (text_reply (chart_reply ''{}'')))
        (fst (runSimulation julia_init)))
      = JObj []"
proof -
  have t: "r_text (text_reply x) = Some x" "\<not> truthy (r_errorMessage (text_reply x))" for x
    by (simp_all add: text_reply_def)
  have p1: "parse_sample ''{bad'' = Inl syntax_error"
    by (simp add: parse_sample_def both_fields_def)
  have p2: "parse_sample ''{}'' = Inr (JObj [])"
    by (simp add: parse_sample_def)
  from runSimulation_chart_block [OF t plot_parts_chart_reply_bad, of parse_sample julia_init syntax_error] p1
  have bad: "j_output (runSimulation_resume parse_sample (Inr (text_reply (chart_reply ''{bad'')))
        (fst (runSimulation julia_init))) = chart_reply ''{bad'' @ chart_failure_notice"
    by blast
  from runSimulation_chart_block [OF t plot_parts_chart_reply_good, of parse_sample julia_init _ "JObj []"] p2
  have good: "j_output (runSimulation_resume parse_sample (Inr (text_reply (chart_reply ''{}'')))
        (fst (runSimulation julia_init))) = (''Resultado:'' @ [LF]) @ ([LF] @ ''Fim.'')"
    "plotData (runSimulation_resume parse_sample (Inr (text_reply (chart_reply ''{}'')))
        (fst (runSimulation julia_init))) = JObj []"
    by blast+
  from good(1) have good1: "j_output (runSimulation_resume parse_sample (Inr (text_reply (chart_reply ''{}'')))
        (fst (runSimulation julia_init))) = ''Resultado:'' @ [LF] @ [LF] @ ''Fim.''"
    by simp
  show ?thesis
    by (intro conjI) (rule plot_parts_chart_reply_bad p1 bad plot_parts_chart_reply_good p2 good1 good(2))+
qed

section \<open>Properties of the terminal components\<close>

lemma settle_None: "next_timer (timers st) = None \<Longrightarrow> settle st = st"
  by (subst settle.simps) simp

lemma settle_Some: "next_timer (timers st) = Some t \<Longrightarrow> settle st = settle (fire t st)"
  by (subst settle.simps) simp

lemma next_timer_None: "next_timer ts = None \<longleftrightarrow> ts = []"
  by (induction ts) (auto split: option.splits)

lemma timers_settle: "timers (settle st) = []"
proof (induction st rule: settle.induct)
  case (1 st)
  show ?case
  proof (cases "next_timer (timers st)")
    case None
    then show ?thesis by (simp add: settle_None next_timer_None)
  next
    case (Some t)
    with 1 show ?thesis by (simp add: settle_Some)
  qed
qed

text \<open>
  C9. The component as rendered schedules the six boot lines, 600 ms apart, exactly
  when the transcript it starts with is empty; with no other event, the transcript
  then becomes the boot lines in order. A non-empty restored transcript gets no boot
  timer and stays as restored.
\<close>

theorem boot_sequence_iff_empty:
  "boot_of (timers (RNTRenderer saved_history saved_context))
     = (if load saved_history = []
        then zip [600, 1200, 1800, 2400, 3000, 3600] bootMessages else [])
   \<and> history (RNTRenderer saved_history saved_context) = load saved_history
   \<and> history (settle (RNTRenderer saved_history saved_context))
     = (if load saved_history = [] then bootMessages else load saved_history)"
proof (cases "load saved_history = []")
  case True
  then show ?thesis
    by (simp add: RNTRenderer_def settle.simps mount_def fire_def Let_def setHistory_def
        bootMessages_def)
next
  case False
  then show ?thesis
    by (simp add: RNTRenderer_def settle.simps mount_def fire_def Let_def)
qed

lemma mount_no_boot: "boot_of (timers (mount False saved_history saved_context)) = []"
  by (simp add: mount_def Let_def)

lemma clear_not_blank: "toLowerCase cmd = ''clear'' \<Longrightarrow> trim cmd \<noteq> []"
  by (rule trim_not_blank [where w = "''clear''"]) (simp_all add: ws_edge_def white_space_def)

lemma reset_not_blank:
  "toLowerCase cmd = ''sys-reset'' \<or> toLowerCase cmd = ''rnt-reset'' \<Longrightarrow> trim cmd \<noteq> []"
proof (erule disjE)
  assume "toLowerCase cmd = ''sys-reset''"
  then show ?thesis by (rule trim_not_blank [where w = "''sys-reset''"]) (simp_all add: ws_edge_def white_space_def)
next
  assume "toLowerCase cmd = ''rnt-reset''"
  then show ?thesis by (rule trim_not_blank [where w = "''rnt-reset''"]) (simp_all add: ws_edge_def white_space_def)
qed

lemma ls_is_sent: "is_sent ''ls''"
  by (simp add: is_sent_def trim_def trimStart_def trimEnd_def strip_leading.simps white_space_def toLowerCase_def lower_char_def)

text \<open>A command that is a no-break space is blank: neither component sends it.\<close>

lemma no_break_space_not_sent:
  "\<not> is_sent [CHR 0xC2, CHR 0xA0]" "\<not> telnet_is_sent [CHR 0xC2, CHR 0xA0]"
  by (simp_all add: is_sent_def telnet_is_sent_def trim_def trimStart_def trimEnd_def
      strip_leading.simps white_space_def)

lemma rnt_interact_sent:
  assumes "is_sent cmd"
  shows "contextMessages (rnt_interact respond st cmd)
         = contextMessages st
           @ [\<lparr> user = cmd,
                system = respond (join [LF] (map render_ctx (slice_last 15 (contextMessages st)))) cmd \<rparr>]"
  using assms
  by (simp add: rnt_interact_def handleCommandSubmit_def handleCommandSubmit_resume_def
      appendInteraction_def setHistory_def setContextMessages_def is_sent_def Let_def)

lemma rnt_session_context:
  assumes "list_all is_sent cmds"
  shows "length (contextMessages (rnt_session respond st cmds))
           = length (contextMessages st) + length cmds
       \<and> take (length (contextMessages st)) (contextMessages (rnt_session respond st cmds))
           = contextMessages st"
  using assms
proof (induction cmds arbitrary: st)
  case Nil
  then show ?case by (simp add: rnt_session_def)
next
  case (Cons cmd cmds)
  then have c: "is_sent cmd" and cs: "list_all is_sent cmds" by simp_all
  have unf: "rnt_session respond st (cmd # cmds)
             = rnt_session respond (rnt_interact respond st cmd) cmds"
    by (simp add: rnt_session_def)
  from Cons.IH [OF cs, of "rnt_interact respond st cmd"]
  show ?case
    unfolding unf rnt_interact_sent [OF c]
    by (auto simp: take_append dest: arg_cong [where f = "take (length (contextMessages st))"])
qed

text \<open>
  C3. \<open>appendInteraction\<close> appends the pair and removes nothing: after any session of
  commands sent to the service the context buffer holds everything it held before,
  followed by one pair for each command.
\<close>

theorem context_buffer_keeps_everything:
  "contextMessages (appendInteraction command response st)
     = contextMessages st @ [\<lparr> user = command, system = response \<rparr>]
   \<and> (list_all is_sent cmds \<longrightarrow>
        length (contextMessages (rnt_session respond st cmds))
          = length (contextMessages st) + length cmds
        \<and> take (length (contextMessages st)) (contextMessages (rnt_session respond st cmds))
          = contextMessages st)"
  using rnt_session_context [of cmds respond st]
  by (simp add: appendInteraction_def setContextMessages_def)

theorem context_buffer_keeps_everything_witness:
  "list_all is_sent [''mkdir projetos'', ''ls'']
   \<and> length (contextMessages
        (rnt_session ok_kernel (RNTRenderer Absent Absent) [''mkdir projetos'', ''ls''])) = 2"
proof -
  have s: "list_all is_sent [''mkdir projetos'', ''ls'']"
    by (simp add: is_sent_def trim_def trimStart_def trimEnd_def strip_leading.simps white_space_def toLowerCase_def lower_char_def)
  have e: "contextMessages (RNTRenderer Absent Absent) = []"
    by (simp add: RNTRenderer_def mount_def)
  from s context_buffer_keeps_everything
         [of _ _ "RNTRenderer Absent Absent" "[''mkdir projetos'', ''ls'']" ok_kernel]
  have "length (contextMessages
        (rnt_session ok_kernel (RNTRenderer Absent Absent) [''mkdir projetos'', ''ls''])) = 2"
    by (simp add: e)
  with s show ?thesis by blast
qed

text \<open>Sixteen commands on a fresh component: the buffer holds sixteen pairs.\<close>

theorem context_buffer_exceeds_window_counterexample:
  "\<not> length (contextMessages
        (rnt_session ok_kernel (RNTRenderer Absent Absent) (replicate 16 ''ls''))) \<le> 15"
proof -
  have s: "list_all is_sent (replicate 16 ''ls'')"
    by (simp add: list_all_iff ls_is_sent)
  have e: "contextMessages (RNTRenderer Absent Absent) = []"
    by (simp add: RNTRenderer_def mount_def)
  from rnt_session_context [OF s, of ok_kernel "RNTRenderer Absent Absent"]
  have "length (contextMessages
        (rnt_session ok_kernel (RNTRenderer Absent Absent) (replicate 16 ''ls''))) = 16"
    by (simp add: e)
  then show ?thesis by simp
qed

lemma length_slice_last: "length (slice_last n xs) = min n (length xs)"
  by (auto simp: slice_last_def)

lemma telnet_interact_sent:
  assumes "telnet_is_sent cmd"
  shows "sessionContext (telnet_interact respond st cmd)
         = sessionContext st @ [LF] @ ''User: '' @ cmd @ [LF] @ ''System: ''
           @ respond (host st) (sessionContext st @ [LF] @ ''User: '' @ cmd @ [LF]) cmd @ [LF]"
  using assms
  by (auto simp: telnet_interact_def telnet_handleCommandSubmit_def telnet_resume_def
      telnet_is_sent_def Let_def)

lemma telnet_session_context:
  assumes "list_all telnet_is_sent cmds"
  shows "length (sessionContext st) + 17 * length cmds
           \<le> length (sessionContext (telnet_session respond st cmds))
       \<and> take (length (sessionContext st)) (sessionContext (telnet_session respond st cmds))
           = sessionContext st"
  using assms
proof (induction cmds arbitrary: st)
  case Nil
  then show ?case by (simp add: telnet_session_def)
next
  case (Cons cmd cmds)
  then have c: "telnet_is_sent cmd" and cs: "list_all telnet_is_sent cmds" by simp_all
  have unf: "telnet_session respond st (cmd # cmds)
             = telnet_session respond (telnet_interact respond st cmd) cmds"
    by (simp add: telnet_session_def)
  have len: "length (sessionContext st) + 17 \<le> length (sessionContext (telnet_interact respond st cmd))"
    by (simp add: telnet_interact_sent [OF c])
  have pre: "take (length (sessionContext st)) (sessionContext (telnet_interact respond st cmd))
             = sessionContext st"
    by (simp add: telnet_interact_sent [OF c])
  from Cons.IH [OF cs, of "telnet_interact respond st cmd"]
  have 1: "length (sessionContext (telnet_interact respond st cmd)) + 17 * length cmds
           \<le> length (sessionContext (telnet_session respond st (cmd # cmds)))"
    and 2: "take (length (sessionContext (telnet_interact respond st cmd)))
              (sessionContext (telnet_session respond st (cmd # cmds)))
            = sessionContext (telnet_interact respond st cmd)"
    unfolding unf by blast+
  from 1 len have a: "length (sessionContext st) + 17 * length (cmd # cmds)
           \<le> length (sessionContext (telnet_session respond st (cmd # cmds)))" by simp
  from len have le: "length (sessionContext st) \<le> length (sessionContext (telnet_interact respond st cmd))"
    by simp
  have "take (length (sessionContext st)) (sessionContext (telnet_session respond st (cmd # cmds)))
        = take (length (sessionContext st))
            (take (length (sessionContext (telnet_interact respond st cmd)))
               (sessionContext (telnet_session respond st (cmd # cmds))))"
    using le by (simp add: min_absorb1)
  also have "\<dots> = sessionContext st" unfolding 2 by (rule pre)
  finally show ?case using a by blast
qed

text \<open>
  C4. The context of an RNT request is built from the last 15 entries of the context
  buffer (all of them when there are fewer), joined by line feeds; the older entries
  are left out. The context of a Telnet request is the whole session context followed
  by the new command; the session context starts with what it was and grows by the
  command and the response of every exchange: it has no window.
\<close>

theorem request_context_window:
  "(is_sent (currentInput st) \<longrightarrow>
      snd (handleCommandSubmit st)
        = Some (join [LF] (map render_ctx (slice_last 15 (contextMessages st))), currentInput st))
   \<and> length (slice_last 15 (contextMessages st)) = min 15 (length (contextMessages st))
   \<and> take (length (contextMessages st) - 15) (contextMessages st)
       @ slice_last 15 (contextMessages st) = contextMessages st
   \<and> (telnet_is_sent (t_currentInput ts) \<longrightarrow>
      snd (telnet_handleCommandSubmit ts)
        = Some (host ts, sessionContext ts @ [LF] @ ''User: '' @ t_currentInput ts @ [LF],
                t_currentInput ts))
   \<and> (list_all telnet_is_sent cmds \<longrightarrow>
        length (sessionContext ts) + 17 * length cmds
          \<le> length (sessionContext (telnet_session respond ts cmds))
        \<and> take (length (sessionContext ts)) (sessionContext (telnet_session respond ts cmds))
          = sessionContext ts)"
proof -
  have a: "is_sent (currentInput st) \<longrightarrow>
      snd (handleCommandSubmit st)
        = Some (join [LF] (map render_ctx (slice_last 15 (contextMessages st))), currentInput st)"
    by (simp add: handleCommandSubmit_def is_sent_def Let_def)
  have b: "length (slice_last 15 (contextMessages st)) = min 15 (length (contextMessages st))"
    by (rule length_slice_last)
  have c: "take (length (contextMessages st) - 15) (contextMessages st)
       @ slice_last 15 (contextMessages st) = contextMessages st"
    by (simp add: slice_last_def)
  have d: "telnet_is_sent (t_currentInput ts) \<longrightarrow>
      snd (telnet_handleCommandSubmit ts)
        = Some (host ts, sessionContext ts @ [LF] @ ''User: '' @ t_currentInput ts @ [LF],
                t_currentInput ts)"
    by (auto simp: telnet_handleCommandSubmit_def telnet_is_sent_def Let_def)
  have e: "list_all telnet_is_sent cmds \<longrightarrow>
        length (sessionContext ts) + 17 * length cmds
          \<le> length (sessionContext (telnet_session respond ts cmds))
        \<and> take (length (sessionContext ts)) (sessionContext (telnet_session respond ts cmds))
          = sessionContext ts"
    using telnet_session_context [of cmds ts respond] by blast
  from a b c d e show ?thesis by blast
qed

lemma mkdir_is_sent: "is_sent ''mkdir projetos''"
  by (simp add: is_sent_def trim_def trimStart_def trimEnd_def strip_leading.simps white_space_def
      toLowerCase_def lower_char_def)

lemma rnt_ok_session:
  assumes "list_all is_sent cmds"
  shows "contextMessages (rnt_session ok_kernel st cmds)
         = contextMessages st @ map (\<lambda>c. \<lparr> user = c, system = ''ok'' \<rparr>) cmds"
  using assms
proof (induction cmds arbitrary: st)
  case Nil
  then show ?case by (simp add: rnt_session_def)
next
  case (Cons cmd cmds)
  then have c: "is_sent cmd" and cs: "list_all is_sent cmds" by simp_all
  have unf: "rnt_session ok_kernel st (cmd # cmds)
             = rnt_session ok_kernel (rnt_interact ok_kernel st cmd) cmds"
    by (simp add: rnt_session_def)
  show ?case
    unfolding unf Cons.IH [OF cs] rnt_interact_sent [OF c]
    by (simp add: ok_kernel_def)
qed

lemma ls_telnet_is_sent: "telnet_is_sent ''ls''"
  by (simp add: telnet_is_sent_def trim_def trimStart_def trimEnd_def strip_leading.simps white_space_def toLowerCase_def
      lower_char_def)

theorem request_context_window_witness:
  "length (contextMessages busy_rnt) = 16
   \<and> hd (contextMessages busy_rnt) = \<lparr> user = ''mkdir projetos'', system = ''ok'' \<rparr>
   \<and> is_sent (currentInput (busy_rnt \<lparr> currentInput := ''pwd'' \<rparr>))
   \<and> snd (handleCommandSubmit (busy_rnt \<lparr> currentInput := ''pwd'' \<rparr>))
       = Some (join [LF] (replicate 15 (''User: ls'' @ [LF] @ ''RNT System: ok'')), ''pwd'')
   \<and> telnet_is_sent (t_currentInput
        ((telnet_connect ok_server (TelnetRenderer ''localhost'')) \<lparr> t_currentInput := ''ls'' \<rparr>))
   \<and> snd (telnet_handleCommandSubmit
        ((telnet_connect ok_server (TelnetRenderer ''localhost'')) \<lparr> t_currentInput := ''ls'' \<rparr>))
       = Some (''localhost'', ''ok'' @ [LF] @ ''User: ls'' @ [LF], ''ls'')
   \<and> list_all telnet_is_sent [''ls'', ''ls'']
   \<and> 36 \<le> length (sessionContext
        (telnet_session ok_server
           ((telnet_connect ok_server (TelnetRenderer ''localhost'')) \<lparr> t_currentInput := ''ls'' \<rparr>)
           [''ls'', ''ls'']))"
proof -
  let ?st = "busy_rnt \<lparr> currentInput := ''pwd'' \<rparr>"
  let ?ts0 = "telnet_connect ok_server (TelnetRenderer ''localhost'')"
  let ?ts = "?ts0 \<lparr> t_currentInput := ''ls'' \<rparr>"
  have sent: "list_all is_sent (''mkdir projetos'' # replicate 15 ''ls'')"
    by (simp add: list_all_iff ls_is_sent mkdir_is_sent)
  have e: "contextMessages (RNTRenderer Absent Absent) = []"
    by (simp add: RNTRenderer_def mount_def)
  have c0: "contextMessages busy_rnt
            = \<lparr> user = ''mkdir projetos'', system = ''ok'' \<rparr>
              # replicate 15 \<lparr> user = ''ls'', system = ''ok'' \<rparr>"
    unfolding busy_rnt_def rnt_ok_session [OF sent] e by simp
  have g1: "length (contextMessages busy_rnt) = 16" by (simp add: c0)
  have g2: "hd (contextMessages busy_rnt) = \<lparr> user = ''mkdir projetos'', system = ''ok'' \<rparr>"
    by (simp add: c0)
  have h1: "is_sent (currentInput ?st)"
    by (simp add: is_sent_def trim_def trimStart_def trimEnd_def strip_leading.simps
        white_space_def toLowerCase_def lower_char_def)
  have h2: "telnet_is_sent (t_currentInput ?ts)" by (simp add: ls_telnet_is_sent)
  have h3: "list_all telnet_is_sent [''ls'', ''ls'']" by (simp add: ls_telnet_is_sent)
  have t0: "sessionContext ?ts0 = ''ok''" "host ?ts0 = ''localhost''"
    by (simp_all add: telnet_connect_def handleConnect_def handleConnect_resume_def
        TelnetRenderer_def ok_server_def)
  note inst = request_context_window [of ?st ?ts "[''ls'', ''ls'']" ok_server]
  note i1 = inst [THEN conjunct1, THEN mp, OF h1]
  note i4 = inst [THEN conjunct2, THEN conjunct2, THEN conjunct2, THEN conjunct1, THEN mp, OF h2]
  note i5 = inst [THEN conjunct2, THEN conjunct2, THEN conjunct2, THEN conjunct2, THEN mp, OF h3,
      THEN conjunct1]
  have sl: "slice_last 15 (contextMessages ?st) = replicate 15 \<lparr> user = ''ls'', system = ''ok'' \<rparr>"
    by (simp add: c0 slice_last_def)
  have r1: "snd (handleCommandSubmit ?st)
       = Some (join [LF] (replicate 15 (''User: ls'' @ [LF] @ ''RNT System: ok'')), ''pwd'')"
    unfolding i1 sl by (simp add: render_ctx_def)
  have r2: "snd (telnet_handleCommandSubmit ?ts)
       = Some (''localhost'', ''ok'' @ [LF] @ ''User: ls'' @ [LF], ''ls'')"
    unfolding i4 by (simp add: t0)
  have r3: "36 \<le> length (sessionContext (telnet_session ok_server ?ts [''ls'', ''ls'']))"
    using i5 by (simp add: t0)
  show ?thesis
    by (intro conjI) (rule g1 g2 h1 r1 h2 r2 h3 r3)+
qed

lemma telnet_ok_session:
  "sessionContext (telnet_session ok_server st (replicate n ''ls''))
   = sessionContext st
     @ concat (replicate n ([LF] @ ''User: ls'' @ [LF] @ ''System: ok'' @ [LF]))"
proof (induction n arbitrary: st)
  case 0
  then show ?case by (simp add: telnet_session_def)
next
  case (Suc n)
  have unf: "telnet_session ok_server st (replicate (Suc n) ''ls'')
             = telnet_session ok_server (telnet_interact ok_server st ''ls'') (replicate n ''ls'')"
    by (simp add: telnet_session_def)
  show ?case
    unfolding unf Suc.IH telnet_interact_sent [OF ls_telnet_is_sent]
    by (simp add: ok_server_def)
qed

text \<open>
  A Telnet session of sixteen commands after the banner: the context of the next
  request holds all sixteen exchanges.
\<close>

theorem telnet_context_unbounded_counterexample:
  "\<not> count_sub ''System: ''
        (telnet_request_context
           (telnet_session ok_server (telnet_connect ok_server (TelnetRenderer ''localhost''))
              (replicate 16 ''ls''))
           ''ls'') \<le> 15"
proof -
  let ?ts = "telnet_session ok_server (telnet_connect ok_server (TelnetRenderer ''localhost''))
              (replicate 16 ''ls'')"
  have t0: "sessionContext (telnet_connect ok_server (TelnetRenderer ''localhost'')) = ''ok''"
    by (simp add: telnet_connect_def handleConnect_def handleConnect_resume_def
        TelnetRenderer_def ok_server_def)
  have ctx: "telnet_request_context ?ts ''ls'' = sessionContext ?ts @ [LF] @ ''User: ls'' @ [LF]"
    using ls_telnet_is_sent
    by (auto simp: telnet_request_context_def telnet_handleCommandSubmit_def telnet_is_sent_def Let_def)
  have "count_sub ''System: '' (telnet_request_context ?ts ''ls'') = 16"
    unfolding ctx telnet_ok_session t0
    by (simp add: eval_nat_numeral LF_def)
  then show ?thesis by simp
qed

lemma submit_clear:
  assumes "toLowerCase cmd = ''clear''"
  shows "rnt_submit cmd st
         = st \<lparr> history := [], currentInput := [],
                timers := filter (\<lambda>t. \<not> is_SaveHistory (snd t)) (timers st)
                          @ [(clock st + 300, SaveHistory [])] \<rparr>"
  using assms clear_not_blank [OF assms]
  by (simp add: rnt_submit_def handleCommandSubmit_def setHistory_def Let_def)

lemma submit_reset:
  assumes "toLowerCase cmd = ''sys-reset'' \<or> toLowerCase cmd = ''rnt-reset''"
  shows "rnt_submit cmd st
         = st \<lparr> history := history st @ [''user@rnt:~$ '' @ cmd] @ wipe_lines,
                contextMessages := [], currentInput := [],
                storage_history := Absent, storage_context := Absent,
                timers := filter (\<lambda>t. \<not> is_SaveHistory (snd t) \<and> \<not> is_SaveContext (snd t)) (timers st)
                          @ [(clock st + 300, SaveHistory (history st @ [''user@rnt:~$ '' @ cmd] @ wipe_lines)),
                             (clock st + 300, SaveContext []),
                             (clock st + 2000, WipeScreen)] \<rparr>"
proof -
  from assms have nc: "toLowerCase cmd \<noteq> ''clear''" by auto
  show ?thesis
    using assms nc reset_not_blank [OF assms]
    by (auto simp: rnt_submit_def handleCommandSubmit_def setHistory_def setContextMessages_def
        Let_def)
qed

text \<open>
  No timer changes the context buffer; when the timers have run, the persisted copies
  hold what the last persistence writes stored; and with no boot line pending, a
  transcript that is empty or about to be wiped ends empty.
\<close>

lemma fire_contextMessages: "contextMessages (fire t st) = contextMessages st"
  by (cases "snd t") (simp_all add: fire_def setHistory_def Let_def)

lemma settle_contextMessages: "contextMessages (settle st) = contextMessages st"
proof (induction st rule: settle.induct)
  case (1 st)
  show ?case
  proof (cases "next_timer (timers st)")
    case None
    then show ?thesis by (simp add: settle_None)
  next
    case (Some t)
    with 1 show ?thesis by (simp add: settle_Some fire_contextMessages)
  qed
qed

lemma boot_of_empty: "boot_of ts = [] \<longleftrightarrow> (\<forall>d m. (d, BootLine m) \<notin> set ts)"
  by (induction ts rule: boot_of.induct) auto

lemma timers_fire:
  "set (timers (fire t st))
   \<subseteq> set (remove1 t (timers st)) \<union> {x. is_SaveHistory (snd x)}"
  by (cases "snd t") (auto simp: fire_def setHistory_def Let_def)

lemma history_fire:
  "history (fire t st)
   = (case snd t of BootLine m \<Rightarrow> history st @ [m] | WipeScreen \<Rightarrow> [] | _ \<Rightarrow> history st)"
  by (cases "snd t") (simp_all add: fire_def setHistory_def Let_def)

lemma wipe_kept:
  assumes "(d, WipeScreen) \<in> set (timers st)" and "t \<noteq> (d, WipeScreen)"
  shows "(d, WipeScreen) \<in> set (timers (fire t st))"
  using assms by (cases "snd t") (auto simp: fire_def setHistory_def Let_def)

lemma settle_wiped:
  assumes "boot_of (timers st) = []"
    and "history st = [] \<or> (\<exists>d. (d, WipeScreen) \<in> set (timers st))"
  shows "history (settle st) = []"
  using assms
proof (induction st rule: settle.induct)
  case (1 st)
  show ?case
  proof (cases "next_timer (timers st)")
    case None
    then have "timers st = []" by (simp add: next_timer_None)
    with None "1.prems"(2) show ?thesis by (simp add: settle_None)
  next
    case (Some t)
    then have mem: "t \<in> set (timers st)" by (rule next_timer_mem)
    have nb: "\<forall>d m. (d, BootLine m) \<notin> set (timers st)"
      using "1.prems"(1) by (simp add: boot_of_empty)
    have nb': "boot_of (timers (fire t st)) = []"
    proof -
      have "(d, BootLine m) \<notin> set (timers (fire t st))" for d m
      proof
        assume "(d, BootLine m) \<in> set (timers (fire t st))"
        with timers_fire [of t st] have "(d, BootLine m) \<in> set (remove1 t (timers st))"
          by auto
        then have "(d, BootLine m) \<in> set (timers st)"
          using set_remove1_subset [of t "timers st"] by blast
        with nb show False by blast
      qed
      then show ?thesis by (simp add: boot_of_empty)
    qed
    have inv: "history (fire t st) = [] \<or> (\<exists>d. (d, WipeScreen) \<in> set (timers (fire t st)))"
    proof (cases "snd t")
      case WipeScreen
      then show ?thesis by (simp add: history_fire)
    next
      case (BootLine m)
      have "t = (fst t, snd t)" by simp
      with BootLine mem nb show ?thesis by metis
    next
      case (SaveHistory h)
      show ?thesis
      proof (cases "history st = []")
        case True
        with SaveHistory show ?thesis by (simp add: history_fire)
      next
        case False
        with "1.prems"(2) obtain d where d: "(d, WipeScreen) \<in> set (timers st)" by blast
        have "t \<noteq> (d, WipeScreen)" using SaveHistory by auto
        from wipe_kept [OF d this] show ?thesis by blast
      qed
    next
      case (SaveContext c)
      show ?thesis
      proof (cases "history st = []")
        case True
        with SaveContext show ?thesis by (simp add: history_fire)
      next
        case False
        with "1.prems"(2) obtain d where d: "(d, WipeScreen) \<in> set (timers st)" by blast
        have "t \<noteq> (d, WipeScreen)" using SaveContext by auto
        from wipe_kept [OF d this] show ?thesis by blast
      qed
    qed
    from "1.IH" [OF Some nb' inv] Some show ?thesis by (simp add: settle_Some)
  qed
qed

lemma settle_history_saved:
  assumes "\<forall>d h. (d, SaveHistory h) \<in> set (timers st) \<longrightarrow> h = history st"
    and "(\<exists>d. (d, SaveHistory (history st)) \<in> set (timers st))
         \<or> storage_history st = Doc (history st)"
  shows "storage_history (settle st) = Doc (history (settle st))"
  using assms
proof (induction st rule: settle.induct)
  case (1 st)
  show ?case
  proof (cases "next_timer (timers st)")
    case None
    then have "timers st = []" by (simp add: next_timer_None)
    with None "1.prems"(2) show ?thesis by (simp add: settle_None)
  next
    case (Some t)
    then have mem: "t \<in> set (timers st)" by (rule next_timer_mem)
    have t: "t = (fst t, snd t)" by simp
    have inv: "(\<forall>d h. (d, SaveHistory h) \<in> set (timers (fire t st)) \<longrightarrow> h = history (fire t st))
         \<and> ((\<exists>d. (d, SaveHistory (history (fire t st))) \<in> set (timers (fire t st)))
              \<or> storage_history (fire t st) = Doc (history (fire t st)))"
    proof (cases "snd t")
      case (SaveHistory h0)
      with t mem have "(fst t, SaveHistory h0) \<in> set (timers st)" by simp
      with "1.prems"(1) have "h0 = history st" by blast
      with SaveHistory have a: "storage_history (fire t st) = Doc (history st)"
        and b: "history (fire t st) = history st"
        and c: "timers (fire t st) = remove1 t (timers st)"
        by (simp_all add: fire_def Let_def)
      have "set (remove1 t (timers st)) \<subseteq> set (timers st)" by (rule set_remove1_subset)
      with "1.prems"(1) show ?thesis unfolding a b c by blast
    next
      case (SaveContext c0)
      then have a: "storage_history (fire t st) = storage_history st"
        and b: "history (fire t st) = history st"
        and c: "timers (fire t st) = remove1 t (timers st)"
        by (simp_all add: fire_def Let_def)
      have same: "(d, SaveHistory h) \<in> set (remove1 t (timers st))
                  \<longleftrightarrow> (d, SaveHistory h) \<in> set (timers st)" for d h
      proof -
        have "(d, SaveHistory h) \<noteq> t" using SaveContext by auto
        then show ?thesis by (rule in_set_remove1)
      qed
      from "1.prems" show ?thesis unfolding a b c same by blast
    next
      case (BootLine m)
      then show ?thesis by (auto simp: fire_def setHistory_def Let_def)
    next
      case WipeScreen
      then show ?thesis by (auto simp: fire_def setHistory_def Let_def)
    qed
    from "1.IH" [OF Some inv [THEN conjunct1] inv [THEN conjunct2]] Some
    show ?thesis by (simp add: settle_Some)
  qed
qed

lemma settle_context_saved:
  assumes "\<forall>d c'. (d, SaveContext c') \<in> set (timers st) \<longrightarrow> c' = c"
    and "(\<exists>d. (d, SaveContext c) \<in> set (timers st)) \<or> storage_context st = Doc c"
  shows "storage_context (settle st) = Doc c"
  using assms
proof (induction st rule: settle.induct)
  case (1 st)
  show ?case
  proof (cases "next_timer (timers st)")
    case None
    then have "timers st = []" by (simp add: next_timer_None)
    with None "1.prems"(2) show ?thesis by (simp add: settle_None)
  next
    case (Some t)
    then have mem: "t \<in> set (timers st)" by (rule next_timer_mem)
    have t: "t = (fst t, snd t)" by simp
    have inv: "(\<forall>d c'. (d, SaveContext c') \<in> set (timers (fire t st)) \<longrightarrow> c' = c)
         \<and> ((\<exists>d. (d, SaveContext c) \<in> set (timers (fire t st)))
              \<or> storage_context (fire t st) = Doc c)"
    proof (cases "snd t")
      case (SaveContext c0)
      with t mem have "(fst t, SaveContext c0) \<in> set (timers st)" by simp
      with "1.prems"(1) have "c0 = c" by blast
      with SaveContext have a: "storage_context (fire t st) = Doc c"
        and tm: "timers (fire t st) = remove1 t (timers st)"
        by (simp_all add: fire_def Let_def)
      have "set (remove1 t (timers st)) \<subseteq> set (timers st)" by (rule set_remove1_subset)
      with "1.prems"(1) show ?thesis unfolding a tm by blast
    next
      case (SaveHistory h0)
      then have a: "storage_context (fire t st) = storage_context st"
        and tm: "timers (fire t st) = remove1 t (timers st)"
        by (simp_all add: fire_def Let_def)
      have same: "(d, SaveContext c') \<in> set (remove1 t (timers st))
                  \<longleftrightarrow> (d, SaveContext c') \<in> set (timers st)" for d c'
      proof -
        have "(d, SaveContext c') \<noteq> t" using SaveHistory by auto
        then show ?thesis by (rule in_set_remove1)
      qed
      from "1.prems" show ?thesis unfolding a tm same by blast
    next
      case (BootLine m)
      have same: "(d, SaveContext c') \<in> set (remove1 t (timers st))
                  \<longleftrightarrow> (d, SaveContext c') \<in> set (timers st)" for d c'
      proof -
        have "(d, SaveContext c') \<noteq> t" using BootLine by auto
        then show ?thesis by (rule in_set_remove1)
      qed
      from "1.prems" BootLine show ?thesis
        by (auto simp: fire_def setHistory_def Let_def same)
    next
      case WipeScreen
      have same: "(d, SaveContext c') \<in> set (remove1 t (timers st))
                  \<longleftrightarrow> (d, SaveContext c') \<in> set (timers st)" for d c'
      proof -
        have "(d, SaveContext c') \<noteq> t" using WipeScreen by auto
        then show ?thesis by (rule in_set_remove1)
      qed
      from "1.prems" WipeScreen show ?thesis
        by (auto simp: fire_def setHistory_def Let_def same)
    qed
    from "1.IH" [OF Some inv [THEN conjunct1] inv [THEN conjunct2]] Some
    show ?thesis by (simp add: settle_Some)
  qed
qed

lemma clear_settled:
  assumes "toLowerCase cmd = ''clear''"
  shows "contextMessages (settle (rnt_submit cmd st)) = contextMessages st"
    and "storage_history (settle (rnt_submit cmd st)) = Doc (history (settle (rnt_submit cmd st)))"
    and "boot_of (timers st) = [] \<Longrightarrow> history (settle (rnt_submit cmd st)) = []"
proof -
  note eq = submit_clear [OF assms, of st]
  show "contextMessages (settle (rnt_submit cmd st)) = contextMessages st"
    unfolding settle_contextMessages by (simp add: eq)
  show "storage_history (settle (rnt_submit cmd st)) = Doc (history (settle (rnt_submit cmd st)))"
    by (rule settle_history_saved) (auto simp: eq)
  show "history (settle (rnt_submit cmd st)) = []" if "boot_of (timers st) = []"
    using that by (intro settle_wiped) (auto simp: eq boot_of_empty)
qed

lemma reset_settled:
  assumes "toLowerCase cmd = ''sys-reset'' \<or> toLowerCase cmd = ''rnt-reset''"
  shows "contextMessages (settle (rnt_submit cmd st)) = []"
    and "storage_context (settle (rnt_submit cmd st)) = Doc []"
    and "storage_history (settle (rnt_submit cmd st)) = Doc (history (settle (rnt_submit cmd st)))"
    and "boot_of (timers st) = [] \<Longrightarrow> history (settle (rnt_submit cmd st)) = []"
proof -
  note eq = submit_reset [OF assms, of st]
  show "contextMessages (settle (rnt_submit cmd st)) = []"
    unfolding settle_contextMessages by (simp add: eq)
  show "storage_context (settle (rnt_submit cmd st)) = Doc []"
    by (rule settle_context_saved) (auto simp: eq)
  show "storage_history (settle (rnt_submit cmd st)) = Doc (history (settle (rnt_submit cmd st)))"
    by (rule settle_history_saved) (auto simp: eq)
  show "history (settle (rnt_submit cmd st)) = []" if "boot_of (timers st) = []"
    using that by (intro settle_wiped) (auto simp: eq boot_of_empty)
qed

lemma idle_rnt_state:
  "history idle_rnt = bootMessages"
  "contextMessages idle_rnt = [\<lparr> user = ''mkdir projetos'', system = ''ok'' \<rparr>]"
  "timers idle_rnt = []"
  "clock idle_rnt = 3900"
  by (simp_all add: idle_rnt_def RNTRenderer_def settle.simps mount_def fire_def Let_def
      setHistory_def bootMessages_def)

lemma lower_commands:
  "toLowerCase ''CLEAR'' = ''clear''" "toLowerCase ''clear'' = ''clear''"
  "toLowerCase ''sys-reset'' = ''sys-reset''"
  by (simp_all add: toLowerCase_def lower_char_def)

text \<open>
  C5. \<open>clear\<close> (in any letter case) empties the transcript at once and leaves the
  context buffer as it is, then and when the pending timers have run. \<open>sys-reset\<close>
  and \<open>rnt-reset\<close> remove both items from storage and empty the context buffer at
  once, append the command line and the three wipe lines to the transcript, and set
  the timer that clears the screen 2000 ms later; the context buffer stays empty, and
  its persisted copy ends as the empty list. After either command, when the timers
  have run, the persisted transcript is a copy of the transcript; and when no boot
  line was pending, both are empty.
\<close>

theorem clear_and_reset:
  "(toLowerCase cmd = ''clear'' \<longrightarrow>
        history (rnt_submit cmd st) = []
      \<and> contextMessages (rnt_submit cmd st) = contextMessages st
      \<and> contextMessages (settle (rnt_submit cmd st)) = contextMessages st
      \<and> storage_history (settle (rnt_submit cmd st)) = Doc (history (settle (rnt_submit cmd st)))
      \<and> (boot_of (timers st) = [] \<longrightarrow>
            history (settle (rnt_submit cmd st)) = []
          \<and> storage_history (settle (rnt_submit cmd st)) = Doc []))
   \<and> (toLowerCase cmd = ''sys-reset'' \<or> toLowerCase cmd = ''rnt-reset'' \<longrightarrow>
        history (rnt_submit cmd st) = history st @ [''user@rnt:~$ '' @ cmd] @ wipe_lines
      \<and> (clock st + 2000, WipeScreen) \<in> set (timers (rnt_submit cmd st))
      \<and> contextMessages (rnt_submit cmd st) = []
      \<and> storage_history (rnt_submit cmd st) = Absent
      \<and> storage_context (rnt_submit cmd st) = Absent
      \<and> contextMessages (settle (rnt_submit cmd st)) = []
      \<and> storage_context (settle (rnt_submit cmd st)) = Doc []
      \<and> storage_history (settle (rnt_submit cmd st)) = Doc (history (settle (rnt_submit cmd st)))
      \<and> (boot_of (timers st) = [] \<longrightarrow>
            history (settle (rnt_submit cmd st)) = []
          \<and> storage_history (settle (rnt_submit cmd st)) = Doc []))"
proof (intro conjI impI)
  assume c: "toLowerCase cmd = ''clear''"
  note eq = submit_clear [OF c, of st]
  show "history (rnt_submit cmd st) = []" by (simp add: eq)
  show "contextMessages (rnt_submit cmd st) = contextMessages st" by (simp add: eq)
  show "contextMessages (settle (rnt_submit cmd st)) = contextMessages st"
    by (rule clear_settled(1) [OF c])
  show "storage_history (settle (rnt_submit cmd st)) = Doc (history (settle (rnt_submit cmd st)))"
    by (rule clear_settled(2) [OF c])
  assume b: "boot_of (timers st) = []"
  show "history (settle (rnt_submit cmd st)) = []" by (rule clear_settled(3) [OF c b])
  show "storage_history (settle (rnt_submit cmd st)) = Doc []"
    unfolding clear_settled(2) [OF c] clear_settled(3) [OF c b] by (rule refl)
next
  assume r: "toLowerCase cmd = ''sys-reset'' \<or> toLowerCase cmd = ''rnt-reset''"
  note eq = submit_reset [OF r, of st]
  show "history (rnt_submit cmd st) = history st @ [''user@rnt:~$ '' @ cmd] @ wipe_lines"
    by (simp add: eq)
  show "(clock st + 2000, WipeScreen) \<in> set (timers (rnt_submit cmd st))"
    by (simp add: eq)
  show "contextMessages (rnt_submit cmd st) = []" by (simp add: eq)
  show "storage_history (rnt_submit cmd st) = Absent" by (simp add: eq)
  show "storage_context (rnt_submit cmd st) = Absent" by (simp add: eq)
  show "contextMessages (settle (rnt_submit cmd st)) = []" by (rule reset_settled(1) [OF r])
  show "storage_context (settle (rnt_submit cmd st)) = Doc []" by (rule reset_settled(2) [OF r])
  show "storage_history (settle (rnt_submit cmd st)) = Doc (history (settle (rnt_submit cmd st)))"
    by (rule reset_settled(3) [OF r])
  assume b: "boot_of (timers st) = []"
  show "history (settle (rnt_submit cmd st)) = []" by (rule reset_settled(4) [OF r b])
  show "storage_history (settle (rnt_submit cmd st)) = Doc []"
    unfolding reset_settled(3) [OF r] reset_settled(4) [OF r b] by (rule refl)
qed

theorem clear_and_reset_witness:
  "toLowerCase ''CLEAR'' = ''clear''
   \<and> boot_of (timers idle_rnt) = []
   \<and> history idle_rnt = bootMessages
   \<and> history (rnt_submit ''CLEAR'' idle_rnt) = []
   \<and> history (settle (rnt_submit ''CLEAR'' idle_rnt)) = []
   \<and> storage_history (settle (rnt_submit ''CLEAR'' idle_rnt)) = Doc []
   \<and> contextMessages (settle (rnt_submit ''CLEAR'' idle_rnt))
       = [\<lparr> user = ''mkdir projetos'', system = ''ok'' \<rparr>]
   \<and> toLowerCase ''sys-reset'' = ''sys-reset''
   \<and> history (rnt_submit ''sys-reset'' idle_rnt)
       = bootMessages @ [''user@rnt:~$ sys-reset''] @ wipe_lines
   \<and> (5900, WipeScreen) \<in> set (timers (rnt_submit ''sys-reset'' idle_rnt))
   \<and> storage_history (rnt_submit ''sys-reset'' idle_rnt) = Absent
   \<and> storage_context (rnt_submit ''sys-reset'' idle_rnt) = Absent
   \<and> history (settle (rnt_submit ''sys-reset'' idle_rnt)) = []
   \<and> contextMessages (settle (rnt_submit ''sys-reset'' idle_rnt)) = []
   \<and> storage_history (settle (rnt_submit ''sys-reset'' idle_rnt)) = Doc []
   \<and> storage_context (settle (rnt_submit ''sys-reset'' idle_rnt)) = Doc []"
proof -
  have b: "boot_of (timers idle_rnt) = []" by (simp add: idle_rnt_state)
  note l1 = lower_commands(1)
  note l2 = lower_commands(3)
  note a = clear_and_reset [of "''CLEAR''" idle_rnt, THEN conjunct1, THEN mp, OF l1]
  note a1 = a [THEN conjunct1]
  note a3 = a [THEN conjunct2, THEN conjunct2, THEN conjunct1, unfolded idle_rnt_state]
  note a5 = a [THEN conjunct2, THEN conjunct2, THEN conjunct2, THEN conjunct2, THEN mp, OF b]
  note r = clear_and_reset [of "''sys-reset''" idle_rnt, THEN conjunct2, THEN mp, OF disjI1, OF l2]
  have r1: "history (rnt_submit ''sys-reset'' idle_rnt)
       = bootMessages @ [''user@rnt:~$ sys-reset''] @ wipe_lines"
    using r [THEN conjunct1] by (simp add: idle_rnt_state)
  have r2: "(5900, WipeScreen) \<in> set (timers (rnt_submit ''sys-reset'' idle_rnt))"
    using r [THEN conjunct2, THEN conjunct1] by (simp add: idle_rnt_state)
  note t = r [THEN conjunct2, THEN conjunct2, THEN conjunct2]
  note r3 = t [THEN conjunct1]
  note r4 = t [THEN conjunct2, THEN conjunct1]
  note r5 = t [THEN conjunct2, THEN conjunct2, THEN conjunct1]
  note r6 = t [THEN conjunct2, THEN conjunct2, THEN conjunct2, THEN conjunct1]
  note r8 = t [THEN conjunct2, THEN conjunct2, THEN conjunct2, THEN conjunct2, THEN conjunct2,
      THEN mp, OF b]
  show ?thesis
    by (intro conjI)
       (rule l1 b idle_rnt_state(1) a1 a5 [THEN conjunct1] a5 [THEN conjunct2] a3 l2 r1 r2 r3 r4
          r8 [THEN conjunct1] r5 r8 [THEN conjunct2] r6)+
qed

text \<open>
  A reset on an idle terminal: the transcript is not empty at once; the first
  persistence write, 300 ms later, stores the transcript from before the reset with
  the wipe lines; and when the timers have run, both items are in storage again, as
  empty lists. And \<open>clear\<close> typed on a fresh terminal, before its boot lines: the
  boot lines then fill the transcript and its persisted copy.
\<close>

theorem reset_writes_back_counterexample:
  "history (rnt_submit ''sys-reset'' idle_rnt) \<noteq> []
   \<and> storage_history (tick (rnt_submit ''sys-reset'' idle_rnt))
       = Doc (bootMessages @ [''user@rnt:~$ sys-reset''] @ wipe_lines)
   \<and> storage_history (settle (rnt_submit ''sys-reset'' idle_rnt)) \<noteq> Absent
   \<and> storage_context (settle (rnt_submit ''sys-reset'' idle_rnt)) \<noteq> Absent
   \<and> history (settle (rnt_submit ''clear'' (RNTRenderer Absent Absent))) = bootMessages
   \<and> storage_history (settle (rnt_submit ''clear'' (RNTRenderer Absent Absent))) = Doc bootMessages"
proof -
  have r: "toLowerCase ''sys-reset'' = ''sys-reset'' \<or> toLowerCase ''sys-reset'' = ''rnt-reset''"
    by (simp add: lower_commands)
  note eq = submit_reset [OF r, of idle_rnt]
  have 1: "history (rnt_submit ''sys-reset'' idle_rnt) \<noteq> []" by (simp add: eq)
  have 2: "storage_history (tick (rnt_submit ''sys-reset'' idle_rnt))
       = Doc (bootMessages @ [''user@rnt:~$ sys-reset''] @ wipe_lines)"
    by (simp add: eq tick_def idle_rnt_state fire_def Let_def)
  have 3: "storage_history (settle (rnt_submit ''sys-reset'' idle_rnt)) \<noteq> Absent"
    by (simp add: reset_settled(3) [OF r])
  have 4: "storage_context (settle (rnt_submit ''sys-reset'' idle_rnt)) \<noteq> Absent"
    by (simp add: reset_settled(2) [OF r])
  have 5: "history (settle (rnt_submit ''clear'' (RNTRenderer Absent Absent))) = bootMessages"
    by (simp add: submit_clear [OF lower_commands(2)] RNTRenderer_def settle.simps mount_def
        fire_def Let_def setHistory_def bootMessages_def)
  have 6: "storage_history (settle (rnt_submit ''clear'' (RNTRenderer Absent Absent)))
           = Doc bootMessages"
    unfolding clear_settled(2) [OF lower_commands(2)] 5 by (rule refl)
  from 1 2 3 4 5 6 show ?thesis by (intro conjI)
qed

end
